theory Spec2Isabelle
  imports Main
begin

section \<open>DefinePlugin: the data model\<close>

text \<open>
  The development follows \<^verbatim>\<open>lib/DefinePlugin.js\<close>.  JavaScript exceptions are values of
  \<open>error\<close>; a function that may throw returns \<open>error + 'a\<close> with \<open>Inl\<close> the exception.
  A string is the list of its code units; the strings of the model are those whose code
  units are all below 256.
\<close>

datatype error = TypeError | SyntaxError | CacheError string

text \<open>\<^verbatim>\<open>module.buildInfo\<close>: the cacheable flag and the file-dependency set.\<close>

record build_info =
  cacheable :: bool
  fileDependencies :: "string set"

text \<open>A \<^verbatim>\<open>NormalModule\<close>, as far as the plugin reads and writes it.\<close>

record module =
  request :: string
  buildInfo :: build_info

text \<open>
  \<^verbatim>\<open>parser.state\<close> is undefined until the parser is given a module to parse; reading
  \<^verbatim>\<open>parser.state.module\<close> then throws a TypeError.
\<close>

record parser_state =
  module :: module

record parser =
  state :: "parser_state option"

record runtime_template =
  supportsBigIntLiteral :: bool

text \<open>\<^verbatim>\<open>RuntimeValue.fileDependencies\<close>: the literal \<^verbatim>\<open>true\<close> or a list of paths.\<close>

datatype file_dependencies = DepsTrue | DepsList "string list"

text \<open>
  The \<^verbatim>\<open>asiSafe\<close> argument: \<^verbatim>\<open>null\<close> (unneeded), a boolean, or anything else
  (\<^verbatim>\<open>undefined\<close>: unknown).
\<close>

datatype asi_safe = AsiNull | AsiTrue | AsiFalse | AsiUndefined

text \<open>
  A \<^verbatim>\<open>CodeValue\<close>.  A number other than \<open>-0\<close> is carried as the text that
  \<^verbatim>\<open>code + ""\<close> gives for it, a regular expression and a function as the text of their
  \<^verbatim>\<open>toString()\<close>.  A \<^verbatim>\<open>RuntimeValue\<close> holds its \<^verbatim>\<open>fn\<close>, a function of the module it is
  called with, and its \<^verbatim>\<open>fileDependencies\<close>.  The values with \<^verbatim>\<open>typeof code === "object"\<close>
  that are neither \<^verbatim>\<open>null\<close>, a RuntimeValue nor a RegExp are arrays and plain objects; a
  plain object is the list of its own enumerable keys, in the order of \<^verbatim>\<open>Object.keys\<close>, with
  their values.
\<close>

datatype code_value =
    Null
  | Undefined
  | NegativeZero
  | RuntimeValue "module \<Rightarrow> code_value" file_dependencies
  | RegExp string
  | Function string
  | Object js_object
  | BigInt int
  | String string
  | Number string
  | Boolean bool
and js_object =
    ArrayObject "code_value list"
  | PlainObject "(string \<times> code_value) list"

text \<open>\<^verbatim>\<open>new RuntimeValue(fn, fileDependencies)\<close>: \<^verbatim>\<open>fileDependencies || []\<close>.\<close>

definition runtimeValue :: "(module \<Rightarrow> code_value) \<Rightarrow> file_dependencies option \<Rightarrow> code_value" where
  "runtimeValue fn deps =
     RuntimeValue fn (case deps of None \<Rightarrow> DepsList [] | Some d \<Rightarrow> d)"

section \<open>Runtime Value Resolver\<close>

text \<open>
  \<^verbatim>\<open>RuntimeValue.exec(parser)\<close>.  The build info is updated in place, so \<^verbatim>\<open>fn\<close> is called
  with the module as updated, and the parser holds that module afterwards.
\<close>

definition exec :: "(module \<Rightarrow> 'a) \<Rightarrow> file_dependencies \<Rightarrow> parser \<Rightarrow> error + 'a \<times> parser" where
  "exec fn deps parser =
     (case state parser of
        None \<Rightarrow> Inl TypeError
      | Some st \<Rightarrow>
          let m = module st;
              info = buildInfo m;
              info' = (case deps of
                  DepsTrue \<Rightarrow> info\<lparr>cacheable := False\<rparr>
                | DepsList paths \<Rightarrow>
                    info\<lparr>fileDependencies := fold insert paths (fileDependencies info)\<rparr>);
              m' = m\<lparr>buildInfo := info'\<rparr>
          in Inr (fn m', parser\<lparr>state := Some (st\<lparr>module := m'\<rparr>)\<rparr>))"

section \<open>Code Serializer\<close>

text \<open>\<^verbatim>\<open>Array.prototype.join\<close> on strings.\<close>

fun join :: "string \<Rightarrow> string list \<Rightarrow> string" where
  "join sep [] = []"
| "join sep [s] = s"
| "join sep (s # t # ss) = s @ sep @ join sep (t # ss)"

text \<open>
  The decimal text of a bigint, as a template string gives it: the digits, most significant
  first, after a minus sign for a negative one.
\<close>

definition digit_char :: "nat \<Rightarrow> char" where
  "digit_char d = ''0123456789'' ! (d mod 10)"

fun decimal :: "nat \<Rightarrow> string" where
  "decimal n = (if 10 \<le> n then decimal (n div 10) else []) @ [digit_char n]"

definition bigint_text :: "int \<Rightarrow> string" where
  "bigint_text i = (if 0 \<le> i then decimal (nat i) else CHR ''-'' # decimal (nat (- i)))"

text \<open>
  \<^verbatim>\<open>JSON.stringify\<close> of a string: the text in double quotes, with the quote, the backslash
  and the control characters escaped.
\<close>

definition hex_digit :: "nat \<Rightarrow> char" where
  "hex_digit n = ''0123456789abcdef'' ! (n mod 16)"

definition json_escape :: "char \<Rightarrow> string" where
  "json_escape c =
     (if c = CHR 0x22 then [CHR 0x5C, CHR 0x22]
      else if c = CHR 0x5C then [CHR 0x5C, CHR 0x5C]
      else if c = CHR 0x08 then [CHR 0x5C, CHR ''b'']
      else if c = CHR 0x0C then [CHR 0x5C, CHR ''f'']
      else if c = CHR 0x0A then [CHR 0x5C, CHR ''n'']
      else if c = CHR 0x0D then [CHR 0x5C, CHR ''r'']
      else if c = CHR 0x09 then [CHR 0x5C, CHR ''t'']
      else if (of_char c :: nat) < 32
        then [CHR 0x5C, CHR ''u'', CHR ''0'', CHR ''0'',
              hex_digit (of_char c div 16), hex_digit (of_char c)]
      else [c])"

definition JSON_stringify :: "string \<Rightarrow> string" where
  "JSON_stringify s = [CHR 0x22] @ concat (map json_escape s) @ [CHR 0x22]"

text \<open>
  \<^verbatim>\<open>xs.map(f)\<close> for a callback that works on the parser and may throw: the elements are
  visited in order, each with the parser as the one before left it, and the first
  exception ends the loop.
\<close>

fun map_threading :: "('a \<Rightarrow> 's \<Rightarrow> error + 'b \<times> 's) \<Rightarrow> 'a list \<Rightarrow> 's \<Rightarrow> error + 'b list \<times> 's" where
  "map_threading f [] s = Inr ([], s)"
| "map_threading f (x # xs) s =
     (case f x s of
        Inl e \<Rightarrow> Inl e
      | Inr (y, s') \<Rightarrow>
          (case map_threading f xs s' of
             Inl e \<Rightarrow> Inl e
           | Inr (ys, s'') \<Rightarrow> Inr (y # ys, s'')))"

lemma map_threading_cong [fundef_cong]:
  "xs = ys \<Longrightarrow> (\<And>x s. x \<in> set ys \<Longrightarrow> f x s = g x s) \<Longrightarrow>
   map_threading f xs = map_threading g ys"
  by (rule ext, induction xs arbitrary: ys) (auto split: sum.splits)

text \<open>
  The values a serialization descends into: the result of a RuntimeValue's \<^verbatim>\<open>fn\<close>, the
  object of an object value, the elements of an array and the values of a plain object.
  The descent is well-founded, which is what makes \<open>toCode\<close> total.
\<close>

inductive_set descends :: "((code_value + js_object) \<times> (code_value + js_object)) set" where
  "(Inl (fn m), Inl (RuntimeValue fn deps)) \<in> descends"
| "(Inr obj, Inl (Object obj)) \<in> descends"
| "x \<in> set xs \<Longrightarrow> (Inl x, Inr (ArrayObject xs)) \<in> descends"
| "(k, x) \<in> set kvs \<Longrightarrow> (Inl x, Inr (PlainObject kvs)) \<in> descends"

lemma wf_descends: "wf descends"
proof (rule wfUNIVI)
  fix P :: "code_value + js_object \<Rightarrow> bool" and v
  assume step: "\<forall>x. (\<forall>y. (y, x) \<in> descends \<longrightarrow> P y) \<longrightarrow> P x"
  have "P (Inl c)" and "P (Inr obj)" for c obj
  proof (induction c and obj)
    case (RuntimeValue fn deps)
    show ?case
      by (rule step[rule_format]) (auto elim!: descends.cases intro: RuntimeValue)
  next
    case (Object obj)
    show ?case
      by (rule step[rule_format]) (auto elim!: descends.cases intro: Object)
  next
    case (ArrayObject xs)
    show ?case
      by (rule step[rule_format]) (auto elim!: descends.cases intro: ArrayObject)
  next
    case (PlainObject kvs)
    show ?case
      by (rule step[rule_format]) (auto elim!: descends.cases intro: PlainObject)
  qed (rule step[rule_format], auto elim: descends.cases)+
  then show "P v" by (cases v) auto
qed

text \<open>
  \<^verbatim>\<open>toCode(code, parser, runtimeTemplate, asiSafe)\<close> and
  \<^verbatim>\<open>stringifyObj(obj, parser, runtimeTemplate, asiSafe)\<close>.  Both return the text and the
  parser as the RuntimeValues met on the way left it.
\<close>

function toCode :: "code_value \<Rightarrow> parser \<Rightarrow> runtime_template \<Rightarrow> asi_safe \<Rightarrow> error + string \<times> parser"
  and stringifyObj :: "js_object \<Rightarrow> parser \<Rightarrow> runtime_template \<Rightarrow> asi_safe \<Rightarrow> error + string \<times> parser" where
  "toCode Null parser runtimeTemplate asiSafe = Inr (''null'', parser)"
| "toCode Undefined parser runtimeTemplate asiSafe = Inr (''undefined'', parser)"
| "toCode NegativeZero parser runtimeTemplate asiSafe = Inr (''-0'', parser)"
| "toCode (RuntimeValue fn deps) parser runtimeTemplate asiSafe =
     (case exec fn deps parser of
        Inl e \<Rightarrow> Inl e
      | Inr (code, parser') \<Rightarrow> toCode code parser' runtimeTemplate asiSafe)"
| "toCode (RegExp src) parser runtimeTemplate asiSafe = Inr (src, parser)"
| "toCode (Function src) parser runtimeTemplate asiSafe = Inr (''('' @ src @ '')'', parser)"
| "toCode (Object obj) parser runtimeTemplate asiSafe =
     stringifyObj obj parser runtimeTemplate asiSafe"
| "toCode (BigInt n) parser runtimeTemplate asiSafe =
     Inr (if supportsBigIntLiteral runtimeTemplate
          then bigint_text n @ ''n''
          else ''BigInt('' @ [CHR 0x22] @ bigint_text n @ [CHR 0x22] @ '')'', parser)"
| "toCode (String s) parser runtimeTemplate asiSafe = Inr (s, parser)"
| "toCode (Number s) parser runtimeTemplate asiSafe = Inr (s, parser)"
| "toCode (Boolean b) parser runtimeTemplate asiSafe =
     Inr (if b then ''true'' else ''false'', parser)"
| "stringifyObj obj parser runtimeTemplate asiSafe =
     (let arr = (case obj of ArrayObject _ \<Rightarrow> True | PlainObject _ \<Rightarrow> False) in
      case (case obj of
              ArrayObject xs \<Rightarrow>
                (case map_threading (\<lambda>code p. toCode code p runtimeTemplate AsiNull) xs parser of
                   Inl e \<Rightarrow> Inl e
                 | Inr (strs, parser') \<Rightarrow> Inr (''['' @ join '','' strs @ '']'', parser'))
            | PlainObject kvs \<Rightarrow>
                (case map_threading
                        (\<lambda>(key, code) p.
                            case toCode code p runtimeTemplate AsiNull of
                              Inl e \<Rightarrow> Inl e
                            | Inr (str, p') \<Rightarrow> Inr (JSON_stringify key @ '':'' @ str, p'))
                        kvs parser of
                   Inl e \<Rightarrow> Inl e
                 | Inr (strs, parser') \<Rightarrow> Inr (''{'' @ join '','' strs @ ''}'', parser'))) of
        Inl e \<Rightarrow> Inl e
      | Inr (code, parser') \<Rightarrow>
          Inr (case asiSafe of
                 AsiNull \<Rightarrow> code
               | AsiTrue \<Rightarrow> if arr then code else ''('' @ code @ '')''
               | AsiFalse \<Rightarrow> if arr then '';'' @ code else '';('' @ code @ '')''
               | AsiUndefined \<Rightarrow> ''Object('' @ code @ '')'',
               parser'))"
  by pat_completeness auto
termination
  apply (relation "inv_image descends (\<lambda>x. case x of Inl (c, _) \<Rightarrow> Inl c | Inr (obj, _) \<Rightarrow> Inr obj)")
  apply (auto simp: wf_descends exec_def Let_def intro: descends.intros split: option.splits)
  done

section \<open>Run State, the snapshot and the module-level variables\<close>

text \<open>
  The shape of the module-level \<^verbatim>\<open>state\<close> and of a parsed snapshot (\<^verbatim>\<open>cache\<close>): the
  serialized text last recorded for a key, and the requests of the modules that used it.
\<close>

record run_state =
  "values" :: "string \<rightharpoonup> string"
  modulesUsingKey :: "string \<rightharpoonup> string list"

text \<open>A promise: pending, resolved, or rejected with an error.  It settles once.\<close>

datatype promise = Pending | Resolved | Rejected error

definition settle :: "promise \<Rightarrow> promise \<Rightarrow> promise" where
  "settle outcome p = (case p of Pending \<Rightarrow> outcome | _ \<Rightarrow> p)"

text \<open>
  The variables the plugin's module declares (\<^verbatim>\<open>state\<close>, named \<open>state_g\<close> here as the
  parser has a \<^verbatim>\<open>state\<close> of its own, \<^verbatim>\<open>didAfterCompileHookRun\<close>, \<^verbatim>\<open>didCodeGeneration\<close>,
  \<^verbatim>\<open>invalidModulePaths\<close>, \<^verbatim>\<open>cacheEmpty\<close>), and the \<^verbatim>\<open>reconcilePromise\<close> that
  \<^verbatim>\<open>apply\<close> creates.
\<close>

record globals =
  state_g :: run_state
  didAfterCompileHookRun :: bool
  didCodeGeneration :: bool
  invalidModulePaths :: "string set"
  cacheEmpty :: bool
  reconcilePromise :: promise

definition initial_globals :: globals where
  "initial_globals =
     \<lparr>state_g = \<lparr>values = Map.empty, modulesUsingKey = Map.empty\<rparr>,
      didAfterCompileHookRun = False,
      didCodeGeneration = False,
      invalidModulePaths = {},
      cacheEmpty = False,
      reconcilePromise = Pending\<rparr>"

section \<open>Properties of plain objects\<close>

text \<open>
  \<^verbatim>\<open>state.values\<close>, \<^verbatim>\<open>state.modulesUsingKey\<close> and the two objects of a parsed snapshot are
  plain objects: a map of the model holds the own properties of one, and a read or an
  \<^verbatim>\<open>in\<close> test that finds no own property goes on to \<^verbatim>\<open>Object.prototype\<close>.  What it finds
  there is a function, given here by its \<^verbatim>\<open>length\<close>, or, under \<^verbatim>\<open>__proto__\<close>, the prototype
  itself, an object that has no \<^verbatim>\<open>length\<close>.
\<close>

datatype inherited = InheritedFunction nat | InheritedPrototype

definition Object_prototype :: "string \<rightharpoonup> inherited" where
  "Object_prototype = map_of
     [(''constructor'', InheritedFunction 1),
      (''hasOwnProperty'', InheritedFunction 1),
      (''isPrototypeOf'', InheritedFunction 1),
      (''propertyIsEnumerable'', InheritedFunction 1),
      (''toLocaleString'', InheritedFunction 0),
      (''toString'', InheritedFunction 0),
      (''valueOf'', InheritedFunction 0),
      (''__defineGetter__'', InheritedFunction 2),
      (''__defineSetter__'', InheritedFunction 2),
      (''__lookupGetter__'', InheritedFunction 1),
      (''__lookupSetter__'', InheritedFunction 1),
      (''__proto__'', InheritedPrototype)]"

text \<open>
  \<^verbatim>\<open>obj[key]\<close>: the own property, else the inherited one, else \<^verbatim>\<open>undefined\<close>.  The test
  \<^verbatim>\<open>key in obj\<close> holds in the first two cases.
\<close>

datatype 'a property = OwnValue 'a | Inherited inherited | NoProperty

definition get_property :: "(string \<rightharpoonup> 'a) \<Rightarrow> string \<Rightarrow> 'a property" where
  "get_property obj key =
     (case obj key of
        Some v \<Rightarrow> OwnValue v
      | None \<Rightarrow> (case Object_prototype key of Some f \<Rightarrow> Inherited f | None \<Rightarrow> NoProperty))"

text \<open>
  \<^verbatim>\<open>obj[key] = v\<close> for \<open>v\<close> a string or \<^verbatim>\<open>undefined\<close> (\<open>None\<close>).  The value becomes an own
  property; but under \<^verbatim>\<open>__proto__\<close>, when the object has no own property of that name, the
  assignment calls the inherited setter, which ignores a value that is not an object.  An
  own property that holds \<^verbatim>\<open>undefined\<close> is carried as no property: the state is read by
  \<^verbatim>\<open>JSON.stringify\<close> only, which leaves such a property out.
\<close>

definition set_property :: "(string \<rightharpoonup> 'a) \<Rightarrow> string \<Rightarrow> 'a option \<Rightarrow> (string \<rightharpoonup> 'a)" where
  "set_property obj key v = (if key = ''__proto__'' \<and> obj key = None then obj else obj(key := v))"

section \<open>Build-Cache Reconciler\<close>

text \<open>\<^verbatim>\<open>typeof code\<close>, \<^verbatim>\<open>code instanceof RuntimeValue\<close> and \<^verbatim>\<open>code instanceof RegExp\<close>.\<close>

fun typeof :: "code_value \<Rightarrow> string" where
  "typeof Null = ''object''"
| "typeof Undefined = ''undefined''"
| "typeof NegativeZero = ''number''"
| "typeof (RuntimeValue fn deps) = ''object''"
| "typeof (RegExp src) = ''object''"
| "typeof (Function src) = ''function''"
| "typeof (Object obj) = ''object''"
| "typeof (BigInt n) = ''bigint''"
| "typeof (String s) = ''string''"
| "typeof (Number s) = ''number''"
| "typeof (Boolean b) = ''boolean''"

fun instanceof_RuntimeValue :: "code_value \<Rightarrow> bool" where
  "instanceof_RuntimeValue (RuntimeValue fn deps) = True"
| "instanceof_RuntimeValue _ = False"

fun instanceof_RegExp :: "code_value \<Rightarrow> bool" where
  "instanceof_RegExp (RegExp src) = True"
| "instanceof_RegExp _ = False"

text \<open>
  \<^verbatim>\<open>Object.keys(obj)\<close>, each key with \<^verbatim>\<open>obj[key]\<close>: the indices of an array, the keys of
  a plain object.
\<close>

fun entries :: "js_object \<Rightarrow> (string \<times> code_value) list" where
  "entries (ArrayObject xs) = zip (map decimal [0..<length xs]) xs"
| "entries (PlainObject kvs) = kvs"

text \<open>
  \<^verbatim>\<open>xs.forEach(f)\<close> for a callback that updates a state and may throw: the first
  exception ends the loop.
\<close>

fun forEach :: "('a \<Rightarrow> 's \<Rightarrow> error + 's) \<Rightarrow> 'a list \<Rightarrow> 's \<Rightarrow> error + 's" where
  "forEach f [] s = Inr s"
| "forEach f (x # xs) s = (case f x s of Inl e \<Rightarrow> Inl e | Inr s' \<Rightarrow> forEach f xs s')"

lemma forEach_cong [fundef_cong]:
  "xs = ys \<Longrightarrow> (\<And>x s. x \<in> set ys \<Longrightarrow> f x s = g x s) \<Longrightarrow> forEach f xs = forEach g ys"
  by (rule ext, induction xs arbitrary: ys) (auto split: sum.splits)

lemma size_entries: "(key, v) \<in> set (entries obj) \<Longrightarrow> size v < size obj"
proof (cases obj)
  case (ArrayObject xs)
  assume "(key, v) \<in> set (entries obj)"
  with ArrayObject have "v \<in> set xs"
    by (auto dest: set_zip_rightD)
  then have "size v \<le> size_list size xs"
    by (simp add: size_list_estimation')
  with ArrayObject show ?thesis by simp
next
  case (PlainObject kvs)
  assume "(key, v) \<in> set (entries obj)"
  with PlainObject have "(key, v) \<in> set kvs" by simp
  then have "size_prod (\<lambda>_. 0) size (key, v) \<le> size_list (size_prod (\<lambda>_. 0) size) kvs"
    by (rule size_list_estimation') simp
  with PlainObject show ?thesis by simp
qed

text \<open>\<^verbatim>\<open>prefix ? prefix + "." + key : key\<close>; an undefined prefix is \<open>None\<close>.\<close>

definition prefixed :: "string option \<Rightarrow> string \<Rightarrow> string" where
  "prefixed prefix key =
     (case prefix of
        None \<Rightarrow> key
      | Some p \<Rightarrow> if p \<noteq> [] then p @ ''.'' @ key else key)"

text \<open>
  \<^verbatim>\<open>run(obj, prefix)\<close> of the snapshot callback, with the snapshot \<^verbatim>\<open>cache\<close>, the value of
  \<^verbatim>\<open>new JavascriptParser("auto")\<close> and the runtime template it closes over.  It works on
  \<^verbatim>\<open>invalidModulePaths\<close>; \<open>run_key\<close> is the callback it gives to \<^verbatim>\<open>forEach\<close>, for one key and
  its value.  \<^verbatim>\<open>Object.keys(null)\<close> throws a TypeError.

  The test \<^verbatim>\<open>fullKey in cache.values && cache.values[fullKey].length > 0 && codeStr !==
  cache.values[fullKey]\<close> is \<open>changed\<close>: an own property is a string, with its length, and is
  compared with \<^verbatim>\<open>codeStr\<close>; an inherited function has its \<^verbatim>\<open>length\<close> and is not a string, so
  it differs from \<^verbatim>\<open>codeStr\<close>; the prototype has no \<^verbatim>\<open>length\<close>, and \<^verbatim>\<open>undefined > 0\<close> is false.
  Then \<^verbatim>\<open>cache.modulesUsingKey[fullKey].forEach\<close> throws a TypeError unless the snapshot has
  a list of its own for the key: neither \<^verbatim>\<open>undefined\<close> nor what is inherited has a
  \<^verbatim>\<open>forEach\<close>.
\<close>

function run :: "run_state \<Rightarrow> parser \<Rightarrow> runtime_template \<Rightarrow> js_object \<Rightarrow> string option \<Rightarrow>
    string set \<Rightarrow> error + string set"
  and run_key :: "run_state \<Rightarrow> parser \<Rightarrow> runtime_template \<Rightarrow> string option \<Rightarrow>
    string \<times> code_value \<Rightarrow> string set \<Rightarrow> error + string set" where
  "run cache newParser runtimeTemplate obj prefix invalid =
     forEach (\<lambda>entry paths. run_key cache newParser runtimeTemplate prefix entry paths)
       (entries obj) invalid"
| "run_key cache newParser runtimeTemplate prefix (key, v) paths =
     (if typeof v = ''object'' \<and> \<not> instanceof_RuntimeValue v \<and> \<not> instanceof_RegExp v then
        (case v of
           Object child \<Rightarrow>
             run cache newParser runtimeTemplate child (Some (prefixed prefix key)) paths
         | _ \<Rightarrow> Inl TypeError)
      else
        (case toCode v newParser runtimeTemplate AsiNull of
           Inl e \<Rightarrow> Inl e
         | Inr (codeStr, _) \<Rightarrow>
             if codeStr = [] then Inr paths
             else
               let fullKey = prefixed prefix key;
                   changed = (case get_property (values cache) fullKey of
                       OwnValue stored \<Rightarrow> length stored > 0 \<and> codeStr \<noteq> stored
                     | Inherited (InheritedFunction n) \<Rightarrow> n > 0
                     | Inherited InheritedPrototype \<Rightarrow> False
                     | NoProperty \<Rightarrow> False)
               in if changed then
                    (case get_property (modulesUsingKey cache) fullKey of
                       OwnValue modulePaths \<Rightarrow> Inr (fold insert modulePaths paths)
                     | _ \<Rightarrow> Inl TypeError)
                  else Inr paths))"
  by pat_completeness auto
termination
  by (relation "measure (\<lambda>x. case x of
          Inl (cache, newParser, runtimeTemplate, obj, prefix, invalid) \<Rightarrow> 2 * size obj
        | Inr (cache, newParser, runtimeTemplate, prefix, (key, v), paths) \<Rightarrow> 2 * size v + 1)")
     (auto dest: size_entries)

text \<open>
  Modelled from the spec: the constructor of \<^verbatim>\<open>JavascriptParser\<close> is not among the sources.
  The spec calls the context that the reconciler resolves Runtime Values with "neutral
  (moduleless)": the parser that \<^verbatim>\<open>new JavascriptParser("auto")\<close> gives has no state, hence
  no module.
\<close>

definition JavascriptParser_new :: parser where
  "JavascriptParser_new = \<lparr>state = None\<rparr>"

text \<open>
  The callback given to \<^verbatim>\<open>definePluginCache.get\<close>, with the error and the raw snapshot the
  cache passes to it.  \<^verbatim>\<open>JSON.parse\<close> is a parameter; \<^verbatim>\<open>!rawCacheValue\<close> holds for an
  absent and for an empty text.  An exception leaves the callback (\<open>Inl\<close>) without the
  promise being settled.
\<close>

definition cache_get_callback :: "(string \<Rightarrow> error + run_state) \<Rightarrow> parser \<Rightarrow> runtime_template \<Rightarrow>
    js_object \<Rightarrow> error option \<Rightarrow> string option \<Rightarrow> globals \<Rightarrow> error + globals" where
  "cache_get_callback JSON_parse newParser runtimeTemplate definitions err rawCacheValue g =
     (case err of
        Some e \<Rightarrow> Inr (g\<lparr>reconcilePromise := settle (Rejected e) (reconcilePromise g)\<rparr>)
      | None \<Rightarrow>
          (case rawCacheValue of
             None \<Rightarrow>
               Inr (g\<lparr>cacheEmpty := True,
                      reconcilePromise := settle Resolved (reconcilePromise g)\<rparr>)
           | Some raw \<Rightarrow>
               if raw = [] then
                 Inr (g\<lparr>cacheEmpty := True,
                        reconcilePromise := settle Resolved (reconcilePromise g)\<rparr>)
               else
                 (case JSON_parse raw of
                    Inl e \<Rightarrow> Inl e
                  | Inr cache \<Rightarrow>
                      (case run cache newParser runtimeTemplate definitions None
                              (invalidModulePaths g) of
                         Inl e \<Rightarrow> Inl e
                       | Inr invalid \<Rightarrow>
                           Inr (g\<lparr>invalidModulePaths := invalid,
                                  reconcilePromise := settle Resolved (reconcilePromise g)\<rparr>)))))"

text \<open>
  The \<^verbatim>\<open>afterCompile\<close> tap: the updated variables and the text given to
  \<^verbatim>\<open>definePluginCache.store\<close>, if any.  \<^verbatim>\<open>JSON.stringify\<close> of the state is a parameter.
\<close>

definition afterCompile :: "(run_state \<Rightarrow> string) \<Rightarrow> globals \<Rightarrow> globals \<times> string option" where
  "afterCompile JSON_stringify_state g =
     (if didAfterCompileHookRun g then (g, None)
      else if \<not> didCodeGeneration g then (g, None)
      else (g\<lparr>didAfterCompileHookRun := True\<rparr>, Some (JSON_stringify_state (state_g g))))"

section \<open>Resolution Gate\<close>

text \<open>
  A resolve request: \<^verbatim>\<open>request.context.issuer\<close> (\<open>None\<close> when it is not a string),
  \<^verbatim>\<open>request.request\<close> and \<^verbatim>\<open>request._forceRealResolve\<close>.
\<close>

record resolve_request =
  context_issuer :: "string option"
  request_request :: string
  forceRealResolve :: bool

text \<open>
  The body of the \<^verbatim>\<open>then\<close> handler of the replaced \<^verbatim>\<open>tapInfo.fn\<close>.  \<^verbatim>\<open>path.dirname\<close>,
  \<^verbatim>\<open>path.resolve\<close> and the original tap function are parameters; \<open>originalTapFn r\<close> is
  the exception the original function throws synchronously for \<open>r\<close>, if any.  The result is
  the exception that leaves the handler, the request and the variables as the handler left
  them, and the requests the original function was called with.
\<close>

definition then_handler :: "(string \<Rightarrow> string) \<Rightarrow> (string \<Rightarrow> string \<Rightarrow> string) \<Rightarrow>
    (resolve_request \<Rightarrow> error option) \<Rightarrow> resolve_request \<Rightarrow> globals \<Rightarrow>
    error option \<times> resolve_request \<times> globals \<times> resolve_request list" where
  "then_handler path_dirname path_resolve originalTapFn req g =
     (if cacheEmpty g then (originalTapFn req, req, g, [req])
      else
        (case context_issuer req of
           None \<Rightarrow> (Some TypeError, req, g, [])
         | Some issuer \<Rightarrow>
             let modulePath = path_resolve (path_dirname issuer) (request_request req) in
             if modulePath \<in> invalidModulePaths g then
               let req' = req\<lparr>forceRealResolve := True\<rparr>;
                   g' = g\<lparr>invalidModulePaths := invalidModulePaths g - {modulePath}\<rparr>
               in (originalTapFn req', req', g', [req'])
             else (originalTapFn req, req, g, [req])))"

text \<open>
  The replaced \<^verbatim>\<open>tapInfo.fn\<close>, once \<^verbatim>\<open>reconcilePromise\<close> has the given state: nothing runs
  while it is pending; the \<^verbatim>\<open>catch\<close> handler runs when the promise is rejected and when
  the \<^verbatim>\<open>then\<close> handler throws, and calls the original function with the same request
  object.
\<close>

definition tapInfo_fn :: "(string \<Rightarrow> string) \<Rightarrow> (string \<Rightarrow> string \<Rightarrow> string) \<Rightarrow>
    (resolve_request \<Rightarrow> error option) \<Rightarrow> resolve_request \<Rightarrow> globals \<Rightarrow>
    globals \<times> resolve_request list" where
  "tapInfo_fn path_dirname path_resolve originalTapFn req g =
     (case reconcilePromise g of
        Pending \<Rightarrow> (g, [])
      | Rejected err \<Rightarrow> (g, [req])
      | Resolved \<Rightarrow>
          (case then_handler path_dirname path_resolve originalTapFn req g of
             (None, req', g', calls) \<Rightarrow> (g', calls)
           | (Some err, req', g', calls) \<Rightarrow> (g', calls @ [req'])))"

text \<open>
  The path a lookup is about: \<^verbatim>\<open>path.resolve(path.dirname(request.context.issuer),
  request.request)\<close>, for a request whose issuer is a string.
\<close>

definition modulePath_of :: "(string \<Rightarrow> string) \<Rightarrow> (string \<Rightarrow> string \<Rightarrow> string) \<Rightarrow>
    resolve_request \<Rightarrow> string" where
  "modulePath_of path_dirname path_resolve req =
     path_resolve (path_dirname (the (context_issuer req))) (request_request req)"

text \<open>
  The resolution lookups of a build, in the order their handlers run, each with the calls
  of the original function it makes.
\<close>

fun lookups :: "(string \<Rightarrow> string) \<Rightarrow> (string \<Rightarrow> string \<Rightarrow> string) \<Rightarrow>
    (resolve_request \<Rightarrow> error option) \<Rightarrow> resolve_request list \<Rightarrow> globals \<Rightarrow>
    globals \<times> resolve_request list list" where
  "lookups path_dirname path_resolve originalTapFn [] g = (g, [])"
| "lookups path_dirname path_resolve originalTapFn (req # reqs) g =
     (case tapInfo_fn path_dirname path_resolve originalTapFn req g of
        (g', calls) \<Rightarrow>
          (case lookups path_dirname path_resolve originalTapFn reqs g' of
             (g'', rest) \<Rightarrow> (g'', calls # rest)))"

section \<open>Reporting to Run State and persisting it\<close>

text \<open>
  The wrapper \<^verbatim>\<open>hookCallback(key, callback)\<close>, applied to what the callback returned:
  \<open>None\<close> when it returned nothing (\<^verbatim>\<open>callback(expr) || []\<close> leaves \<^verbatim>\<open>result\<close> undefined),
  otherwise the text, a string or \<^verbatim>\<open>undefined\<close>, and the result, which is an object or
  \<^verbatim>\<open>true\<close>.  The module is the wrapper's second argument.  The wrapper sets
  \<^verbatim>\<open>didCodeGeneration\<close> and writes the text before it reads
  \<^verbatim>\<open>state.modulesUsingKey[key] || []\<close>; what is inherited under the key is truthy and not
  iterable, so spreading it throws a TypeError, with the flag and the text already
  written.  The result is what the wrapper returns or throws, and the variables as it
  leaves them.
\<close>

definition hookCallback :: "string \<Rightarrow> (string option \<times> 'r) option \<Rightarrow> module \<Rightarrow> globals \<Rightarrow>
    (error + 'r option) \<times> globals" where
  "hookCallback key returned m g =
     (case returned of
        None \<Rightarrow> (Inr None, g)
      | Some (strCode, result) \<Rightarrow>
          let st = (state_g g)\<lparr>values := set_property (values (state_g g)) key strCode\<rparr>;
              g' = g\<lparr>didCodeGeneration := True, state_g := st\<rparr>
          in (case get_property (modulesUsingKey st) key of
                OwnValue users \<Rightarrow>
                  (Inr (Some result),
                   g'\<lparr>state_g := st\<lparr>modulesUsingKey :=
                         (modulesUsingKey st)(key \<mapsto> users @ [request m])\<rparr>\<rparr>)
              | NoProperty \<Rightarrow>
                  (Inr (Some result),
                   g'\<lparr>state_g := st\<lparr>modulesUsingKey :=
                         (modulesUsingKey st)(key \<mapsto> [] @ [request m])\<rparr>\<rparr>)
              | Inherited f \<Rightarrow> (Inl TypeError, g')))"

text \<open>
  What happens in the builds of a process, as far as persisting goes: a behaviour of a key
  fires in a module and its callback returns a text (or nothing), or the \<^verbatim>\<open>afterCompile\<close>
  hook is called.  \<open>build_events\<close> runs them in order and collects the texts given to the
  store.
\<close>

datatype build_event = Behaviour string "string option" module | AfterCompile

fun build_events :: "(run_state \<Rightarrow> string) \<Rightarrow> build_event list \<Rightarrow> globals \<Rightarrow> globals \<times> string list" where
  "build_events JSON_stringify_state [] g = (g, [])"
| "build_events JSON_stringify_state (Behaviour key returned m # evs) g =
     build_events JSON_stringify_state evs
       (snd (hookCallback key (map_option (\<lambda>strCode. (Some strCode, True)) returned) m g))"
| "build_events JSON_stringify_state (AfterCompile # evs) g =
     (case afterCompile JSON_stringify_state g of
        (g', stored) \<Rightarrow>
          (case build_events JSON_stringify_state evs g' of
             (g'', rest) \<Rightarrow> (g'', (case stored of None \<Rightarrow> [] | Some s \<Rightarrow> [s]) @ rest)))"

section \<open>What the reconciler compares\<close>

text \<open>
  The leaves of a definition tree with their full keys, as \<open>run\<close> meets them: every value
  that is not an array or a plain object, under the key path that leads to it;
  \<open>leaves_key\<close> gives those below one key.
\<close>

function leaves :: "js_object \<Rightarrow> string option \<Rightarrow> (string \<times> code_value) list"
  and leaves_key :: "string option \<Rightarrow> string \<times> code_value \<Rightarrow> (string \<times> code_value) list" where
  "leaves obj prefix = concat (map (\<lambda>entry. leaves_key prefix entry) (entries obj))"
| "leaves_key prefix (key, v) =
     (case v of
        Object child \<Rightarrow> leaves child (Some (prefixed prefix key))
      | _ \<Rightarrow> [(prefixed prefix key, v)])"
  by pat_completeness auto
termination
  by (relation "measure (\<lambda>x. case x of
          Inl (obj, prefix) \<Rightarrow> 2 * size obj
        | Inr (prefix, (key, v)) \<Rightarrow> 2 * size v + 1)")
     (auto dest: size_entries)

declare leaves.simps [simp del]

text \<open>
  The modules the snapshot records under a changed key: a leaf key whose text, recomputed
  with the given parser, is not empty, and for which the snapshot holds a text that is not
  empty and differs from the recomputed one.
\<close>

definition changed_modules :: "run_state \<Rightarrow> parser \<Rightarrow> runtime_template \<Rightarrow>
    (string \<times> code_value) list \<Rightarrow> string set" where
  "changed_modules cache newParser runtimeTemplate lvs =
     {m. \<exists>k v text p stored paths.
           (k, v) \<in> set lvs
         \<and> toCode v newParser runtimeTemplate AsiNull = Inr (text, p)
         \<and> text \<noteq> []
         \<and> values cache k = Some stored
         \<and> stored \<noteq> []
         \<and> text \<noteq> stored
         \<and> modulesUsingKey cache k = Some paths
         \<and> m \<in> set paths}"

section \<open>Substitution Registrar\<close>

text \<open>
  \<^verbatim>\<open>/^typeof\s+/.test(key)\<close> and \<^verbatim>\<open>key.replace(/^typeof\s+/, "")\<close>.  The code units below 256
  that \<^verbatim>\<open>\s\<close> matches are the tab, the line feed, the vertical tab, the form feed, the
  carriage return, the space and the no-break space.
\<close>

definition is_space :: "char \<Rightarrow> bool" where
  "is_space c = (c \<in> {CHR 0x09, CHR 0x0A, CHR 0x0B, CHR 0x0C, CHR 0x0D, CHR 0x20, CHR 0xA0})"

definition is_typeof_key :: "string \<Rightarrow> bool" where
  "is_typeof_key key =
     (take 6 key = ''typeof'' \<and> (case drop 6 key of [] \<Rightarrow> False | c # _ \<Rightarrow> is_space c))"

definition strip_typeof :: "string \<Rightarrow> string" where
  "strip_typeof key = (if is_typeof_key key then dropWhile is_space (drop 6 key) else key)"

text \<open>
  \<^verbatim>\<open>walkDefinitions(definitions, prefix)\<close>, as the list of the calls of \<^verbatim>\<open>applyDefine\<close> and
  \<^verbatim>\<open>applyObjectDefine\<close> it makes, in order.  A value is walked into when it is truthy,
  \<^verbatim>\<open>typeof code === "object"\<close>, and neither a RuntimeValue nor a RegExp, and
  \<^verbatim>\<open>applyObjectDefine\<close> is called for its key after the walk; \<^verbatim>\<open>null\<close> is a leaf here.  The
  rename approvals (\<^verbatim>\<open>applyDefineKey\<close> and the \<^verbatim>\<open>canRename\<close> taps) are not part of this
  development.
\<close>

datatype registration = ApplyDefine string code_value | ApplyObjectDefine string js_object

function walkDefinitions :: "js_object \<Rightarrow> string \<Rightarrow> registration list"
  and walk_key :: "string \<Rightarrow> string \<times> code_value \<Rightarrow> registration list" where
  "walkDefinitions definitions prefix =
     concat (map (\<lambda>entry. walk_key prefix entry) (entries definitions))"
| "walk_key prefix (key, code) =
     (case code of
        Object obj \<Rightarrow>
          walkDefinitions obj (prefix @ key @ ''.'') @ [ApplyObjectDefine (prefix @ key) obj]
      | _ \<Rightarrow> [ApplyDefine (prefix @ key) code])"
  by pat_completeness auto
termination
  by (relation "measure (\<lambda>x. case x of
          Inl (obj, prefix) \<Rightarrow> 2 * size obj
        | Inr (prefix, (key, v)) \<Rightarrow> 2 * size v + 1)")
     (auto dest: size_entries)

declare walkDefinitions.simps [simp del]

text \<open>
  What the plugin reads of a \<^verbatim>\<open>BasicEvaluatedExpression\<close>: whether it is a string, and
  which.
\<close>

datatype evaluated = StringResult string | OtherResult

fun isString :: "evaluated \<Rightarrow> bool" where
  "isString (StringResult s) = True"
| "isString OtherResult = False"

text \<open>
  What \<^verbatim>\<open>parser.evaluate(text)\<close> does is the parser's business; the plugin meets it through
  the hooks the parser calls on the way.  An evaluation is a result, or a call of the
  \<^verbatim>\<open>evaluateIdentifier\<close> or the \<^verbatim>\<open>evaluateTypeof\<close> hook for a name, and how the evaluation
  goes on with what the hook returned (\<open>None\<close>: no tap gave a result).
\<close>

datatype evaluation =
    Done evaluated
  | CallEvaluateIdentifier string "evaluated option \<Rightarrow> evaluation"
  | CallEvaluateTypeof string "evaluated option \<Rightarrow> evaluation"

text \<open>
  The parser and its helpers are not among the sources; what they do is the parameter
  \<open>parse\<close> of the model:

    \<^item> \<open>evaluate_text\<close>: the evaluation \<^verbatim>\<open>parser.evaluate(text)\<close> makes of a text;

    \<^item> \<open>object_evaluateIdentifier\<close>: what the \<^verbatim>\<open>evaluateIdentifier\<close> callback of
      \<^verbatim>\<open>applyObjectDefine\<close> returns, the text \<^verbatim>\<open>res.asString()\<close> (a string or \<^verbatim>\<open>undefined\<close>) and
      the expression \<^verbatim>\<open>res\<close> that \<^verbatim>\<open>new BasicEvaluatedExpression().setTruthy()\<close> gives;

    \<^item> \<open>object_evaluateTypeof\<close>: what its \<^verbatim>\<open>evaluateTypeof\<close> callback returns, the text
      \<^verbatim>\<open>res.asString()\<close> and the expression \<^verbatim>\<open>res\<close> that \<^verbatim>\<open>evaluateToString("object")(expr)\<close>
      gives;

    \<^item> \<open>object_typeof_text\<close>: what \<^verbatim>\<open>res.asString()\<close> does in its \<^verbatim>\<open>typeof\<close> callback, where
      \<^verbatim>\<open>res\<close> is what the function made by \<^verbatim>\<open>toConstantDependency\<close> returned: a text, or an
      exception when \<^verbatim>\<open>res\<close> has no such method.
\<close>

record parser_calls =
  evaluate_text :: "string \<Rightarrow> evaluation"
  object_evaluateIdentifier :: "string option \<times> evaluated"
  object_evaluateTypeof :: "string option \<times> evaluated"
  object_typeof_text :: "error + string option"

inductive_set continues :: "(evaluation \<times> evaluation) set" where
  "(k r, CallEvaluateIdentifier name k) \<in> continues"
| "(k r, CallEvaluateTypeof name k) \<in> continues"

lemma wf_continues: "wf continues"
proof (rule wfUNIVI)
  fix P :: "evaluation \<Rightarrow> bool" and ev
  assume step: "\<forall>x. (\<forall>y. (y, x) \<in> continues \<longrightarrow> P y) \<longrightarrow> P x"
  show "P ev"
  proof (induction ev)
    case (Done res)
    show ?case
      by (rule step[rule_format]) (auto elim: continues.cases)
  next
    case (CallEvaluateIdentifier name k)
    show ?case
      by (rule step[rule_format]) (auto elim!: continues.cases intro: CallEvaluateIdentifier)
  next
    case (CallEvaluateTypeof name k)
    show ?case
      by (rule step[rule_format]) (auto elim!: continues.cases intro: CallEvaluateTypeof)
  qed
qed

text \<open>
  The two recursion guards of one \<^verbatim>\<open>applyDefine\<close> call: \<^verbatim>\<open>recurse\<close> and
  \<^verbatim>\<open>recurseTypeof\<close>.  Each is set when its callback starts and cleared when it is done, so
  as long as no exception occurs the guards that are set are those of the callbacks that
  are running; the model carries them as a set of pairs of the call's position in
  \<open>walkDefinitions\<close> and the guard.  An exception ends the evaluation (\<open>Inl\<close>); the model
  does not follow the parser beyond it.
\<close>

datatype guard = Recurse | RecurseTypeof

lemma UNIV_guard: "(UNIV :: guard set) = {Recurse, RecurseTypeof}"
  using guard.exhaust by auto

text \<open>
  The callbacks of \<^verbatim>\<open>applyDefine(key, code)\<close>, each given \<^verbatim>\<open>parser.evaluate\<close>, the value of
  its guard where it has one, and the variables and the parser it works on.  Each returns
  \<open>None\<close> for no result, or the text and the result: the evaluated expression, or, for the
  two substitutions, the \<^verbatim>\<open>true\<close> that the function made by \<^verbatim>\<open>toConstantDependency\<close> returns.
  The position of the reference decides \<^verbatim>\<open>!parser.isAsiPosition(expr.range[0])\<close>.
\<close>

definition evaluateIdentifier_callback ::
  "(string \<Rightarrow> globals \<times> parser \<Rightarrow> error + evaluated \<times> (globals \<times> parser)) \<Rightarrow>
   runtime_template \<Rightarrow> code_value \<Rightarrow> bool \<Rightarrow> globals \<times> parser \<Rightarrow>
   error + (string option \<times> evaluated) option \<times> (globals \<times> parser)" where
  "evaluateIdentifier_callback parser_evaluate runtimeTemplate code recurse st =
     (if recurse then Inr (None, st)
      else
        (case toCode code (snd st) runtimeTemplate AsiNull of
           Inl e \<Rightarrow> Inl e
         | Inr (strCode, parser') \<Rightarrow>
             (case parser_evaluate strCode (fst st, parser') of
                Inl e \<Rightarrow> Inl e
              | Inr (res, st') \<Rightarrow> Inr (Some (Some strCode, res), st'))))"

definition evaluateTypeof_callback ::
  "(string \<Rightarrow> globals \<times> parser \<Rightarrow> error + evaluated \<times> (globals \<times> parser)) \<Rightarrow>
   runtime_template \<Rightarrow> bool \<Rightarrow> code_value \<Rightarrow> bool \<Rightarrow> globals \<times> parser \<Rightarrow>
   error + (string option \<times> evaluated) option \<times> (globals \<times> parser)" where
  "evaluateTypeof_callback parser_evaluate runtimeTemplate isTypeof code recurseTypeof st =
     (if recurseTypeof then Inr (None, st)
      else
        (case toCode code (snd st) runtimeTemplate AsiNull of
           Inl e \<Rightarrow> Inl e
         | Inr (strCode, parser') \<Rightarrow>
             let typeofCode = (if isTypeof then strCode else ''typeof ('' @ strCode @ '')'') in
             (case parser_evaluate typeofCode (fst st, parser') of
                Inl e \<Rightarrow> Inl e
              | Inr (res, st') \<Rightarrow> Inr (Some (Some strCode, res), st'))))"

definition typeof_callback ::
  "(string \<Rightarrow> globals \<times> parser \<Rightarrow> error + evaluated \<times> (globals \<times> parser)) \<Rightarrow>
   runtime_template \<Rightarrow> bool \<Rightarrow> code_value \<Rightarrow> globals \<times> parser \<Rightarrow>
   error + (string option \<times> bool) option \<times> (globals \<times> parser)" where
  "typeof_callback parser_evaluate runtimeTemplate isTypeof code st =
     (case toCode code (snd st) runtimeTemplate AsiNull of
        Inl e \<Rightarrow> Inl e
      | Inr (strCode, parser') \<Rightarrow>
          let typeofCode = (if isTypeof then strCode else ''typeof ('' @ strCode @ '')'') in
          (case parser_evaluate typeofCode (fst st, parser') of
             Inl e \<Rightarrow> Inl e
           | Inr (res, st') \<Rightarrow>
               if \<not> isString res then Inr (None, st')
               else Inr (Some (Some strCode, True), st')))"

definition expression_callback ::
  "runtime_template \<Rightarrow> code_value \<Rightarrow> bool \<Rightarrow> globals \<times> parser \<Rightarrow>
   error + (string option \<times> bool) option \<times> (globals \<times> parser)" where
  "expression_callback runtimeTemplate code isAsiPosition st =
     (case toCode code (snd st) runtimeTemplate (if isAsiPosition then AsiFalse else AsiTrue) of
        Inl e \<Rightarrow> Inl e
      | Inr (strCode, parser') \<Rightarrow> Inr (Some (Some strCode, True), (fst st, parser')))"

text \<open>
  The callbacks of \<^verbatim>\<open>applyObjectDefine(key, obj)\<close>.  They have no guard and always return a
  result; only the \<^verbatim>\<open>expression\<close> callback serializes, the whole object with
  \<^verbatim>\<open>stringifyObj\<close>.
\<close>

definition object_evaluateIdentifier_callback ::
  "parser_calls \<Rightarrow> globals \<times> parser \<Rightarrow>
   error + (string option \<times> evaluated) option \<times> (globals \<times> parser)" where
  "object_evaluateIdentifier_callback parse st = Inr (Some (object_evaluateIdentifier parse), st)"

definition object_evaluateTypeof_callback ::
  "parser_calls \<Rightarrow> globals \<times> parser \<Rightarrow>
   error + (string option \<times> evaluated) option \<times> (globals \<times> parser)" where
  "object_evaluateTypeof_callback parse st = Inr (Some (object_evaluateTypeof parse), st)"

definition object_expression_callback ::
  "runtime_template \<Rightarrow> js_object \<Rightarrow> bool \<Rightarrow> globals \<times> parser \<Rightarrow>
   error + (string option \<times> bool) option \<times> (globals \<times> parser)" where
  "object_expression_callback runtimeTemplate obj isAsiPosition st =
     (case stringifyObj obj (snd st) runtimeTemplate (if isAsiPosition then AsiFalse else AsiTrue) of
        Inl e \<Rightarrow> Inl e
      | Inr (strCode, parser') \<Rightarrow> Inr (Some (Some strCode, True), (fst st, parser')))"

definition object_typeof_callback ::
  "parser_calls \<Rightarrow> globals \<times> parser \<Rightarrow>
   error + (string option \<times> bool) option \<times> (globals \<times> parser)" where
  "object_typeof_callback parse st =
     (case object_typeof_text parse of
        Inl e \<Rightarrow> Inl e
      | Inr strCode \<Rightarrow> Inr (Some (strCode, True), st))"

lemma evaluateIdentifier_callback_cong [fundef_cong]:
  "recurse = recurse' \<Longrightarrow> code = code' \<Longrightarrow> st = st' \<Longrightarrow> rt = rt' \<Longrightarrow>
   (\<And>text s. \<not> recurse' \<Longrightarrow> ev text s = ev' text s) \<Longrightarrow>
   evaluateIdentifier_callback ev rt code recurse st =
   evaluateIdentifier_callback ev' rt' code' recurse' st'"
  by (auto simp: evaluateIdentifier_callback_def split: sum.splits)

lemma evaluateTypeof_callback_cong [fundef_cong]:
  "recurse = recurse' \<Longrightarrow> code = code' \<Longrightarrow> st = st' \<Longrightarrow> rt = rt' \<Longrightarrow> isT = isT' \<Longrightarrow>
   (\<And>text s. \<not> recurse' \<Longrightarrow> ev text s = ev' text s) \<Longrightarrow>
   evaluateTypeof_callback ev rt isT code recurse st =
   evaluateTypeof_callback ev' rt' isT' code' recurse' st'"
  by (auto simp: evaluateTypeof_callback_def Let_def split: sum.splits)

text \<open>
  The wrapper of \<^verbatim>\<open>hookCallback\<close> around a callback that has run: an exception of the
  callback, or of the wrapper, leaves the hook.
\<close>

definition wrapped :: "string \<Rightarrow> module \<Rightarrow>
    error + (string option \<times> 'r) option \<times> (globals \<times> parser) \<Rightarrow>
    error + 'r option \<times> (globals \<times> parser)" where
  "wrapped key m returned =
     (case returned of
        Inl e \<Rightarrow> Inl e
      | Inr (r, (g, parser)) \<Rightarrow>
          (case hookCallback key r m g of
             (Inl e, g') \<Rightarrow> Inl e
           | (Inr result, g') \<Rightarrow> Inr (result, (g', parser))))"

text \<open>
  The call of a bail hook: the taps run in the order they were registered, until one
  returns a result.
\<close>

fun bail :: "('t \<Rightarrow> 's \<Rightarrow> error + 'r option \<times> 's) \<Rightarrow> 't list \<Rightarrow> 's \<Rightarrow> error + 'r option \<times> 's" where
  "bail f [] s = Inr (None, s)"
| "bail f (t # ts) s =
     (case f t s of
        Inl e \<Rightarrow> Inl e
      | Inr (None, s') \<Rightarrow> bail f ts s'
      | Inr (Some r, s') \<Rightarrow> Inr (Some r, s'))"

lemma bail_cong [fundef_cong]:
  "ts = ts' \<Longrightarrow> (\<And>t s. t \<in> set ts' \<Longrightarrow> f t s = g t s) \<Longrightarrow> bail f ts = bail g ts'"
  by (rule ext, induction ts arbitrary: ts') (auto split: sum.splits option.splits)

text \<open>
  The taps of the plugin on the hooks of a name, by the position of the registering call.
  \<^verbatim>\<open>applyDefine\<close> taps \<^verbatim>\<open>evaluateIdentifier\<close> and \<^verbatim>\<open>expression\<close> for its key unless the key
  starts with \<open>typeof\<close>, and \<^verbatim>\<open>evaluateTypeof\<close> and \<^verbatim>\<open>typeof\<close> for its key stripped of
  \<open>typeof\<close>; \<^verbatim>\<open>applyObjectDefine\<close> taps all four for its key.
\<close>

definition identifier_taps :: "registration list \<Rightarrow> string \<Rightarrow> (nat \<times> registration) list" where
  "identifier_taps defs name =
     filter (\<lambda>(i, reg). case reg of
                 ApplyDefine key code \<Rightarrow> \<not> is_typeof_key key \<and> key = name
               | ApplyObjectDefine key obj \<Rightarrow> key = name)
       (enumerate 0 defs)"

definition typeof_taps :: "registration list \<Rightarrow> string \<Rightarrow> (nat \<times> registration) list" where
  "typeof_taps defs name =
     filter (\<lambda>(i, reg). case reg of
                 ApplyDefine key code \<Rightarrow> strip_typeof key = name
               | ApplyObjectDefine key obj \<Rightarrow> key = name)
       (enumerate 0 defs)"

lemma taps_index:
  "(i, reg) \<in> set (identifier_taps defs name) \<Longrightarrow> i < length defs"
  "(i, reg) \<in> set (typeof_taps defs name) \<Longrightarrow> i < length defs"
  by (auto simp: identifier_taps_def typeof_taps_def in_set_enumerate_eq)

lemma guards_decrease:
  assumes "i < (n::nat)" and "(i, gd) \<notin> active"
  shows "card ({..<n} \<times> (UNIV :: guard set) - insert (i, gd) active) < card ({..<n} \<times> UNIV - active)"
proof -
  have "finite ({..<n} \<times> (UNIV :: guard set))"
    unfolding UNIV_guard by (intro finite_cartesian_product) simp_all
  moreover have "{..<n} \<times> (UNIV :: guard set) - insert (i, gd) active \<subset> {..<n} \<times> UNIV - active"
    using assms by auto
  ultimately show ?thesis
    by (meson finite_Diff psubset_card_mono)
qed

text \<open>
  \<open>evaluate\<close> runs an evaluation of the parser; \<open>call_evaluateIdentifier\<close> and
  \<open>call_evaluateTypeof\<close> are the calls of the two hooks it makes, each tap wrapped by
  \<^verbatim>\<open>hookCallback\<close> with the key its registering call gave.
\<close>

function evaluate :: "parser_calls \<Rightarrow> runtime_template \<Rightarrow> registration list \<Rightarrow>
    module \<Rightarrow> (nat \<times> guard) set \<Rightarrow> evaluation \<Rightarrow> globals \<times> parser \<Rightarrow>
    error + evaluated \<times> (globals \<times> parser)"
  and call_evaluateIdentifier :: "parser_calls \<Rightarrow> runtime_template \<Rightarrow>
    registration list \<Rightarrow> module \<Rightarrow> (nat \<times> guard) set \<Rightarrow> string \<Rightarrow> globals \<times> parser \<Rightarrow>
    error + evaluated option \<times> (globals \<times> parser)"
  and call_evaluateTypeof :: "parser_calls \<Rightarrow> runtime_template \<Rightarrow>
    registration list \<Rightarrow> module \<Rightarrow> (nat \<times> guard) set \<Rightarrow> string \<Rightarrow> globals \<times> parser \<Rightarrow>
    error + evaluated option \<times> (globals \<times> parser)" where
  "evaluate parse rt defs m active (Done res) st = Inr (res, st)"
| "evaluate parse rt defs m active (CallEvaluateIdentifier name k) st =
     (case call_evaluateIdentifier parse rt defs m active name st of
        Inl e \<Rightarrow> Inl e
      | Inr (r, st') \<Rightarrow> evaluate parse rt defs m active (k r) st')"
| "evaluate parse rt defs m active (CallEvaluateTypeof name k) st =
     (case call_evaluateTypeof parse rt defs m active name st of
        Inl e \<Rightarrow> Inl e
      | Inr (r, st') \<Rightarrow> evaluate parse rt defs m active (k r) st')"
| "call_evaluateIdentifier parse rt defs m active name st =
     bail (\<lambda>(i, reg) s.
             case reg of
               ApplyDefine key code \<Rightarrow>
                 wrapped key m
                   (evaluateIdentifier_callback
                      (\<lambda>text s'. evaluate parse rt defs m (insert (i, Recurse) active)
                                   (evaluate_text parse text) s')
                      rt code ((i, Recurse) \<in> active) s)
             | ApplyObjectDefine key obj \<Rightarrow>
                 wrapped key m (object_evaluateIdentifier_callback parse s))
       (identifier_taps defs name) st"
| "call_evaluateTypeof parse rt defs m active name st =
     bail (\<lambda>(i, reg) s.
             case reg of
               ApplyDefine key code \<Rightarrow>
                 wrapped (strip_typeof key) m
                   (evaluateTypeof_callback
                      (\<lambda>text s'. evaluate parse rt defs m (insert (i, RecurseTypeof) active)
                                   (evaluate_text parse text) s')
                      rt (is_typeof_key key) code ((i, RecurseTypeof) \<in> active) s)
             | ApplyObjectDefine key obj \<Rightarrow>
                 wrapped key m (object_evaluateTypeof_callback parse s))
       (typeof_taps defs name) st"
  by pat_completeness auto
termination
  apply (relation "inv_image (less_than <*lex*> less_than <*lex*> continues)
     (\<lambda>x. case x of
        Inl (parse, rt, defs, m, active, ev, st) \<Rightarrow>
          (card ({..<length defs} \<times> (UNIV :: guard set) - active), 1::nat, ev)
      | Inr (Inl (parse, rt, defs, m, active, name, st)) \<Rightarrow>
          (card ({..<length defs} \<times> (UNIV :: guard set) - active), 0, Done OtherResult)
      | Inr (Inr (parse, rt, defs, m, active, name, st)) \<Rightarrow>
          (card ({..<length defs} \<times> (UNIV :: guard set) - active), 0, Done OtherResult))")
  apply (auto simp: wf_continues intro: continues.intros guards_decrease dest: taps_index)
  done

declare call_evaluateIdentifier.simps [simp del] call_evaluateTypeof.simps [simp del]

text \<open>
  The hooks the parser calls while it walks a module: \<^verbatim>\<open>typeof\<close> for \<^verbatim>\<open>typeof name\<close> and
  \<^verbatim>\<open>expression\<close> for a reference to \<open>name\<close>, which is or is not at a position where a
  semicolon may be inserted.  They are given here as called when no callback is running
  and no guard is set.
\<close>

definition call_typeof :: "parser_calls \<Rightarrow> runtime_template \<Rightarrow> registration list \<Rightarrow>
    module \<Rightarrow> string \<Rightarrow> globals \<times> parser \<Rightarrow> error + bool option \<times> (globals \<times> parser)" where
  "call_typeof parse rt defs m name st =
     bail (\<lambda>(i, reg) s.
             case reg of
               ApplyDefine key code \<Rightarrow>
                 wrapped (strip_typeof key) m
                   (typeof_callback
                      (\<lambda>text s'. evaluate parse rt defs m {} (evaluate_text parse text) s')
                      rt (is_typeof_key key) code s)
             | ApplyObjectDefine key obj \<Rightarrow>
                 wrapped key m (object_typeof_callback parse s))
       (typeof_taps defs name) st"

definition call_expression :: "runtime_template \<Rightarrow> registration list \<Rightarrow>
    module \<Rightarrow> string \<Rightarrow> bool \<Rightarrow> globals \<times> parser \<Rightarrow> error + bool option \<times> (globals \<times> parser)" where
  "call_expression rt defs m name isAsiPosition st =
     bail (\<lambda>(i, reg) s.
             case reg of
               ApplyDefine key code \<Rightarrow>
                 wrapped key m (expression_callback rt code isAsiPosition s)
             | ApplyObjectDefine key obj \<Rightarrow>
                 wrapped key m (object_expression_callback rt obj isAsiPosition s))
       (identifier_taps defs name) st"

text \<open>The key a registering call gives to \<^verbatim>\<open>hookCallback\<close>.\<close>

fun hook_key :: "registration \<Rightarrow> string" where
  "hook_key (ApplyDefine key code) = strip_typeof key"
| "hook_key (ApplyObjectDefine key obj) = key"


section \<open>Example inputs\<close>

text \<open>
  A module, a parser that is parsing it, and what a parser's \<^verbatim>\<open>evaluate\<close> does with a few
  texts: an identifier \<open>a\<close> or \<open>b\<close> is looked up with the \<^verbatim>\<open>evaluateIdentifier\<close> hook,
  \<open>typeof (a)\<close> and \<open>typeof (b)\<close> with the \<^verbatim>\<open>evaluateTypeof\<close> hook, and the result is the
  hook's if it has one; a string literal evaluates to its string; nothing is known about
  any other text.  The callbacks for the key of a nested object return a truthy expression
  without a text, and the string \<open>object\<close> with that text; \<^verbatim>\<open>asString\<close> is no method of the
  result of a substitution.
\<close>

definition example_module :: module where
  "example_module =
     \<lparr>request = ''/src/m.js'', buildInfo = \<lparr>cacheable = True, fileDependencies = {}\<rparr>\<rparr>"

definition example_parser :: parser where
  "example_parser = \<lparr>state = Some \<lparr>module = example_module\<rparr>\<rparr>"

definition hook_or_unknown :: "evaluated option \<Rightarrow> evaluation" where
  "hook_or_unknown r = Done (case r of None \<Rightarrow> OtherResult | Some res \<Rightarrow> res)"

definition example_parse :: parser_calls where
  "example_parse =
     \<lparr>evaluate_text = (\<lambda>t.
        if t = ''a'' \<or> t = ''b'' then CallEvaluateIdentifier t hook_or_unknown
        else if t = ''typeof (a)'' then CallEvaluateTypeof ''a'' hook_or_unknown
        else if t = ''typeof (b)'' then CallEvaluateTypeof ''b'' hook_or_unknown
        else if t = [CHR 0x22] @ ''string'' @ [CHR 0x22] then Done (StringResult ''string'')
        else Done OtherResult),
      object_evaluateIdentifier = (None, OtherResult),
      object_evaluateTypeof = (Some ''object'', StringResult ''object''),
      object_typeof_text = Inl TypeError\<rparr>"

section \<open>Properties\<close>

subsection \<open>Runtime Value Resolver\<close>

text \<open>
  C9.  Resolving a Runtime Value against a parser that holds a module returns what the
  compute function gives for that module, as updated: with \<open>fileDependencies = true\<close> the
  module's cacheable flag is false and its file-dependency set is as before; with a list of
  paths the set is the old one with every listed path added and the cacheable flag is as
  before.  Nothing else of the module changes.
\<close>

theorem exec_effects:
  assumes "state parser = Some st"
  shows "\<exists>m'. exec fn deps parser = Inr (fn m', parser\<lparr>state := Some (st\<lparr>module := m'\<rparr>)\<rparr>)
           \<and> request m' = request (module st)
           \<and> (deps = DepsTrue \<longrightarrow>
                 cacheable (buildInfo m') = False
               \<and> fileDependencies (buildInfo m') = fileDependencies (buildInfo (module st)))
           \<and> (\<forall>paths. deps = DepsList paths \<longrightarrow>
                 fileDependencies (buildInfo m') = fileDependencies (buildInfo (module st)) \<union> set paths
               \<and> cacheable (buildInfo m') = cacheable (buildInfo (module st)))"
proof -
  have ins: "fold insert paths S = S \<union> set paths" for paths and S :: "string set"
    by (induction paths arbitrary: S) auto
  define info' where "info' = (case deps of
      DepsTrue \<Rightarrow> (buildInfo (module st))\<lparr>cacheable := False\<rparr>
    | DepsList paths \<Rightarrow> (buildInfo (module st))\<lparr>fileDependencies :=
        fold insert paths (fileDependencies (buildInfo (module st)))\<rparr>)"
  define m' where "m' = (module st)\<lparr>buildInfo := info'\<rparr>"
  have "exec fn deps parser = Inr (fn m', parser\<lparr>state := Some (st\<lparr>module := m'\<rparr>)\<rparr>)"
    using assms by (simp add: exec_def Let_def m'_def info'_def)
  moreover have "request m' = request (module st)"
    by (simp add: m'_def)
  moreover have "deps = DepsTrue \<longrightarrow>
      cacheable (buildInfo m') = False
    \<and> fileDependencies (buildInfo m') = fileDependencies (buildInfo (module st))"
    by (simp add: m'_def info'_def)
  moreover have "\<forall>paths. deps = DepsList paths \<longrightarrow>
      fileDependencies (buildInfo m') = fileDependencies (buildInfo (module st)) \<union> set paths
    \<and> cacheable (buildInfo m') = cacheable (buildInfo (module st))"
    by (simp add: m'_def info'_def ins)
  ultimately show ?thesis by blast
qed

theorem exec_effects_witness:
  "exec (\<lambda>m. String (request m)) (DepsList [''a.js''])
      \<lparr>state = Some \<lparr>module = \<lparr>request = ''/src/index.js'',
          buildInfo = \<lparr>cacheable = True, fileDependencies = {''b.js''}\<rparr>\<rparr>\<rparr>\<rparr>
   = Inr (String ''/src/index.js'',
      \<lparr>state = Some \<lparr>module = \<lparr>request = ''/src/index.js'',
          buildInfo = \<lparr>cacheable = True, fileDependencies = {''a.js'', ''b.js''}\<rparr>\<rparr>\<rparr>\<rparr>)"
  using exec_effects [of "\<lparr>state = Some \<lparr>module = \<lparr>request = ''/src/index.js'',
          buildInfo = \<lparr>cacheable = True, fileDependencies = {''b.js''}\<rparr>\<rparr>\<rparr>\<rparr>"
      "\<lparr>module = \<lparr>request = ''/src/index.js'',
          buildInfo = \<lparr>cacheable = True, fileDependencies = {''b.js''}\<rparr>\<rparr>\<rparr>"
      "\<lambda>m. String (request m)" "DepsList [''a.js'']"]
  by (simp add: exec_def)


subsection \<open>Code Serializer\<close>

text \<open>
  C8.  For an array or a plain object, \<open>toCode\<close> gives what \<open>stringifyObj\<close> gives.  The raw
  text of an array is its elements' texts between brackets, that of a plain object its
  keys, JSON-quoted, each with its value's text, between braces; the elements and the
  values are serialized with \<open>asiSafe = null\<close> whatever the \<open>asiSafe\<close> of the call is.  With
  \<open>null\<close> the result is the raw text; with \<open>true\<close> the raw text of an array and the raw text
  in parentheses for a plain object; with \<open>false\<close> that with a semicolon before; with
  anything else the raw text inside \<open>Object(...)\<close>.  The last two lines are instances: a
  plain object that holds an array that holds a plain object, under \<open>false\<close> and under
  \<open>undefined\<close>.
\<close>

theorem stringifyObj_asiSafe:
  "toCode (Object obj) parser rt asiSafe = stringifyObj obj parser rt asiSafe
   \<and> stringifyObj (ArrayObject xs) parser rt asiSafe =
       (case map_threading (\<lambda>code p. toCode code p rt AsiNull) xs parser of
          Inl e \<Rightarrow> Inl e
        | Inr (strs, parser') \<Rightarrow>
            Inr (case asiSafe of
                   AsiNull \<Rightarrow> ''['' @ join '','' strs @ '']''
                 | AsiTrue \<Rightarrow> ''['' @ join '','' strs @ '']''
                 | AsiFalse \<Rightarrow> '';'' @ ''['' @ join '','' strs @ '']''
                 | AsiUndefined \<Rightarrow> ''Object('' @ ''['' @ join '','' strs @ '']'' @ '')'',
                 parser'))
   \<and> stringifyObj (PlainObject kvs) parser rt asiSafe =
       (case map_threading
               (\<lambda>(key, code) p.
                   case toCode code p rt AsiNull of
                     Inl e \<Rightarrow> Inl e
                   | Inr (str, p') \<Rightarrow> Inr (JSON_stringify key @ '':'' @ str, p'))
               kvs parser of
          Inl e \<Rightarrow> Inl e
        | Inr (strs, parser') \<Rightarrow>
            Inr (case asiSafe of
                   AsiNull \<Rightarrow> ''{'' @ join '','' strs @ ''}''
                 | AsiTrue \<Rightarrow> ''('' @ ''{'' @ join '','' strs @ ''}'' @ '')''
                 | AsiFalse \<Rightarrow> '';('' @ ''{'' @ join '','' strs @ ''}'' @ '')''
                 | AsiUndefined \<Rightarrow> ''Object('' @ ''{'' @ join '','' strs @ ''}'' @ '')'',
                 parser'))
   \<and> toCode (Object (PlainObject [(''a'', Number ''1''),
          (''b'', Object (ArrayObject [Boolean True, Object (PlainObject [(''c'', Null)])]))]))
        parser rt AsiFalse =
       Inr ('';({'' @ [CHR 0x22] @ ''a'' @ [CHR 0x22] @ '':1,'' @ [CHR 0x22] @ ''b'' @ [CHR 0x22]
              @ '':[true,{'' @ [CHR 0x22] @ ''c'' @ [CHR 0x22] @ '':null}]})'', parser)
   \<and> toCode (Object (PlainObject [(''a'', Number ''1''),
          (''b'', Object (ArrayObject [Boolean True, Object (PlainObject [(''c'', Null)])]))]))
        parser rt AsiUndefined =
       Inr (''Object({'' @ [CHR 0x22] @ ''a'' @ [CHR 0x22] @ '':1,'' @ [CHR 0x22] @ ''b'' @ [CHR 0x22]
              @ '':[true,{'' @ [CHR 0x22] @ ''c'' @ [CHR 0x22] @ '':null}]})'', parser)"
proof -
  have arr: "stringifyObj (ArrayObject xs) parser rt asiSafe =
       (case map_threading (\<lambda>code p. toCode code p rt AsiNull) xs parser of
          Inl e \<Rightarrow> Inl e
        | Inr (strs, parser') \<Rightarrow>
            Inr (case asiSafe of
                   AsiNull \<Rightarrow> ''['' @ join '','' strs @ '']''
                 | AsiTrue \<Rightarrow> ''['' @ join '','' strs @ '']''
                 | AsiFalse \<Rightarrow> '';'' @ ''['' @ join '','' strs @ '']''
                 | AsiUndefined \<Rightarrow> ''Object('' @ ''['' @ join '','' strs @ '']'' @ '')'',
                 parser'))"
    by (cases asiSafe) (simp_all split: sum.splits prod.splits)
  have obj: "stringifyObj (PlainObject kvs) parser rt asiSafe =
       (case map_threading
               (\<lambda>(key, code) p.
                   case toCode code p rt AsiNull of
                     Inl e \<Rightarrow> Inl e
                   | Inr (str, p') \<Rightarrow> Inr (JSON_stringify key @ '':'' @ str, p'))
               kvs parser of
          Inl e \<Rightarrow> Inl e
        | Inr (strs, parser') \<Rightarrow>
            Inr (case asiSafe of
                   AsiNull \<Rightarrow> ''{'' @ join '','' strs @ ''}''
                 | AsiTrue \<Rightarrow> ''('' @ ''{'' @ join '','' strs @ ''}'' @ '')''
                 | AsiFalse \<Rightarrow> '';('' @ ''{'' @ join '','' strs @ ''}'' @ '')''
                 | AsiUndefined \<Rightarrow> ''Object('' @ ''{'' @ join '','' strs @ ''}'' @ '')'',
                 parser'))"
    by (cases asiSafe) (simp_all split: sum.splits prod.splits)
  have ex: "toCode (Object (PlainObject [(''a'', Number ''1''),
          (''b'', Object (ArrayObject [Boolean True, Object (PlainObject [(''c'', Null)])]))]))
        parser rt AsiFalse =
       Inr ('';({'' @ [CHR 0x22] @ ''a'' @ [CHR 0x22] @ '':1,'' @ [CHR 0x22] @ ''b'' @ [CHR 0x22]
              @ '':[true,{'' @ [CHR 0x22] @ ''c'' @ [CHR 0x22] @ '':null}]})'', parser)"
    "toCode (Object (PlainObject [(''a'', Number ''1''),
          (''b'', Object (ArrayObject [Boolean True, Object (PlainObject [(''c'', Null)])]))]))
        parser rt AsiUndefined =
       Inr (''Object({'' @ [CHR 0x22] @ ''a'' @ [CHR 0x22] @ '':1,'' @ [CHR 0x22] @ ''b'' @ [CHR 0x22]
              @ '':[true,{'' @ [CHR 0x22] @ ''c'' @ [CHR 0x22] @ '':null}]})'', parser)"
    by (simp_all add: JSON_stringify_def json_escape_def)
  show ?thesis
    using arr obj ex by simp
qed

subsection \<open>Build-Cache Reconciler\<close>

lemma fold_insert_union: "fold insert xs S = S \<union> set xs"
  by (induction xs arbitrary: S) auto

lemma forEach_append:
  "forEach f (xs @ ys) s = (case forEach f xs s of Inl e \<Rightarrow> Inl e | Inr s' \<Rightarrow> forEach f ys s')"
  by (induction xs arbitrary: s) (auto split: sum.splits)

lemma forEach_union:
  "(\<And>x s. x \<in> set xs \<Longrightarrow> f x s = Inr (s \<union> G x)) \<Longrightarrow>
   forEach f xs s = Inr (s \<union> (\<Union>x\<in>set xs. G x))"
  by (induction xs arbitrary: s) (auto simp: Un_assoc)

lemma forEach_error:
  "forEach f xs s = Inl e \<Longrightarrow> \<exists>x\<in>set xs. \<exists>s'. f x s' = Inl e"
  by (induction xs arbitrary: s) (auto split: sum.splits)

lemma forEach_fails:
  "x \<in> set xs \<Longrightarrow> (\<And>s. \<exists>e. f x s = Inl e) \<Longrightarrow> \<exists>e. forEach f xs s = Inl e"
proof (induction xs arbitrary: s)
  case Nil
  then show ?case by simp
next
  case (Cons y ys)
  show ?case
  proof (cases "f y s")
    case (Inl e)
    then show ?thesis by simp
  next
    case (Inr s')
    show ?thesis
    proof (cases "x = y")
      case True
      with Cons.prems(2)[of s] Inr show ?thesis by simp
    next
      case False
      with Cons Inr show ?thesis by simp
    qed
  qed
qed

lemma map_threading_error:
  "map_threading f xs s = Inl e \<Longrightarrow> \<exists>x\<in>set xs. \<exists>s'. f x s' = Inl e"
  by (induction xs arbitrary: s) (auto split: sum.splits prod.splits)

lemma toCode_error_TypeError:
  "toCode v p rt asi = Inl e \<Longrightarrow> e = TypeError"
  "stringifyObj obj p rt asi = Inl e \<Longrightarrow> e = TypeError"
proof (induction v p rt asi and obj p rt asi rule: toCode_stringifyObj.induct)
  case (4 fn deps parser runtimeTemplate asiSafe)
  then show ?case
    by (auto simp: exec_def Let_def split: sum.splits option.splits)
next
  case (12 obj parser runtimeTemplate asiSafe)
  show ?case
  proof (cases obj)
    case (ArrayObject xs)
    with "12.prems" obtain x s' where "x \<in> set xs" "toCode x s' runtimeTemplate AsiNull = Inl e"
      by (auto simp: Let_def split: sum.splits prod.splits dest!: map_threading_error)
    with "12.IH"(1)[OF _ ArrayObject] show ?thesis by blast
  next
    case (PlainObject kvs)
    with "12.prems" obtain key x s' where "(key, x) \<in> set kvs"
        "toCode x s' runtimeTemplate AsiNull = Inl e"
      by (auto simp: Let_def split: sum.splits prod.splits dest!: map_threading_error)
    with "12.IH"(2)[OF _ PlainObject] show ?thesis by blast
  qed
qed auto

lemma changed_modules_concat:
  "changed_modules cache np rt (concat xss) = (\<Union>xs\<in>set xss. changed_modules cache np rt xs)"
  by (auto simp: changed_modules_def) blast+

lemma changed_modules_single:
  "toCode v np rt AsiNull = Inr (codeStr, p) \<Longrightarrow>
   changed_modules cache np rt [(k, v)] =
     (if codeStr \<noteq> [] \<and> (\<exists>stored. values cache k = Some stored \<and> stored \<noteq> [] \<and> codeStr \<noteq> stored)
      then (case modulesUsingKey cache k of None \<Rightarrow> {} | Some paths \<Rightarrow> set paths) else {})"
  by (auto simp: changed_modules_def split: option.splits)

lemma leaves_key_subset:
  "entry \<in> set (entries obj) \<Longrightarrow> set (leaves_key prefix entry) \<subseteq> set (leaves obj prefix)"
  by (subst leaves.simps) auto

lemma run_invalidates_both:
  "\<forall>(k, v) \<in> set (leaves obj prefix).
        v \<noteq> Null \<and> (\<exists>codeStr p. toCode v newParser rt AsiNull = Inr (codeStr, p)) \<Longrightarrow>
   \<forall>k \<in> dom (values cache). k \<in> dom (modulesUsingKey cache) \<Longrightarrow>
   \<forall>(k, v) \<in> set (leaves obj prefix). k \<notin> dom (values cache) \<longrightarrow> Object_prototype k = None \<Longrightarrow>
   run cache newParser rt obj prefix invalid =
     Inr (invalid \<union> changed_modules cache newParser rt (leaves obj prefix))"
  "\<forall>(k, v) \<in> set (leaves_key prefix entry).
        v \<noteq> Null \<and> (\<exists>codeStr p. toCode v newParser rt AsiNull = Inr (codeStr, p)) \<Longrightarrow>
   \<forall>k \<in> dom (values cache). k \<in> dom (modulesUsingKey cache) \<Longrightarrow>
   \<forall>(k, v) \<in> set (leaves_key prefix entry). k \<notin> dom (values cache) \<longrightarrow> Object_prototype k = None \<Longrightarrow>
   run_key cache newParser rt prefix entry paths =
     Inr (paths \<union> changed_modules cache newParser rt (leaves_key prefix entry))"
proof (induction cache newParser rt obj prefix invalid and cache newParser rt prefix entry paths
       rule: run_run_key.induct)
  case (1 cache newParser rt obj prefix invalid)
  have "run_key cache newParser rt prefix entry s =
          Inr (s \<union> changed_modules cache newParser rt (leaves_key prefix entry))"
    if "entry \<in> set (entries obj)" for entry s
    using that "1.prems" leaves_key_subset[OF that, of prefix]
    by (intro "1.IH") (fastforce simp: subset_iff)+
  then have "run cache newParser rt obj prefix invalid =
      Inr (invalid \<union> (\<Union>entry\<in>set (entries obj).
             changed_modules cache newParser rt (leaves_key prefix entry)))"
    by (simp add: forEach_union)
  moreover have "changed_modules cache newParser rt (leaves obj prefix) =
      (\<Union>entry\<in>set (entries obj). changed_modules cache newParser rt (leaves_key prefix entry))"
    by (subst leaves.simps) (simp add: changed_modules_concat)
  ultimately show ?case by simp
next
  case (2 cache newParser rt prefix key v paths)
  show ?case
  proof (cases "\<exists>child. v = Object child")
    case True
    then obtain child where v: "v = Object child" by blast
    with "2.prems" "2.IH"[of child] show ?thesis by simp
  next
    case False
    then have L: "leaves_key prefix (key, v) = [(prefixed prefix key, v)]"
      by (cases v) auto
    with "2.prems"(1) obtain codeStr p where nn: "v \<noteq> Null"
        and tc: "toCode v newParser rt AsiNull = Inr (codeStr, p)"
      by auto
    have leaf: "\<not> (typeof v = ''object'' \<and> \<not> instanceof_RuntimeValue v \<and> \<not> instanceof_RegExp v)"
      using False nn by (cases v) auto
    show ?thesis
    proof (cases "values cache (prefixed prefix key)")
      case None
      with "2.prems"(3) L have "Object_prototype (prefixed prefix key) = None"
        by (auto simp: dom_def)
      with None leaf tc show ?thesis
        unfolding L
        by (auto simp: changed_modules_single[OF tc] get_property_def Let_def)
    next
      case (Some stored)
      with "2.prems"(2) obtain modulePaths where
        "modulesUsingKey cache (prefixed prefix key) = Some modulePaths"
        by (auto simp: dom_def)
      with Some leaf tc show ?thesis
        unfolding L
        by (auto simp: changed_modules_single[OF tc] get_property_def fold_insert_union Let_def)
    qed
  qed
qed

text \<open>
  C1 (as amended).  Take a snapshot whose keys are all keys of leaves of the definition
  tree, with a module list for every key it has a text for, and a tree none of whose
  leaves is \<open>null\<close>, each of which serializes with the given parser, and whose leaf keys
  that the snapshot does not know name no property of \<^verbatim>\<open>Object.prototype\<close>.  Then every key
  of the snapshot has a recomputed text, and \<open>run\<close> adds to the invalidation set exactly
  the modules that the snapshot records under the keys whose recomputed text and stored
  text are both not empty and differ; no other module is added.
\<close>

theorem run_invalidates:
  assumes "\<forall>(k, v) \<in> set (leaves defs prefix).
            v \<noteq> Null \<and> (\<exists>text p. toCode v newParser rt AsiNull = Inr (text, p))"
      and "\<forall>k \<in> dom (values cache). k \<in> dom (modulesUsingKey cache)"
      and "\<forall>k \<in> dom (values cache). k \<in> fst ` set (leaves defs prefix)"
      and "\<forall>(k, v) \<in> set (leaves defs prefix).
            k \<notin> dom (values cache) \<longrightarrow> Object_prototype k = None"
  shows "(\<forall>k \<in> dom (values cache). \<exists>v text p.
            (k, v) \<in> set (leaves defs prefix) \<and> toCode v newParser rt AsiNull = Inr (text, p))
       \<and> run cache newParser rt defs prefix invalid =
           Inr (invalid \<union> changed_modules cache newParser rt (leaves defs prefix))"
proof
  show "\<forall>k \<in> dom (values cache). \<exists>v text p.
            (k, v) \<in> set (leaves defs prefix) \<and> toCode v newParser rt AsiNull = Inr (text, p)"
    using assms(1,3) by fastforce
  show "run cache newParser rt defs prefix invalid =
           Inr (invalid \<union> changed_modules cache newParser rt (leaves defs prefix))"
    using assms(1,2,4) by (rule run_invalidates_both(1))
qed

theorem run_invalidates_witness:
  "(let cache = \<lparr>values = [''FOO'' \<mapsto> ''1'', ''BAR.BAZ'' \<mapsto> ''x''],
                   modulesUsingKey = [''FOO'' \<mapsto> [''/src/a.js''], ''BAR.BAZ'' \<mapsto> [''/src/b.js'']]\<rparr>;
        rt = \<lparr>supportsBigIntLiteral = True\<rparr>;
        defs = PlainObject [(''FOO'', Number ''2''),
                            (''BAR'', Object (PlainObject [(''BAZ'', String ''x'')])),
                            (''QUX'', Boolean True)]
    in run cache JavascriptParser_new rt defs None {} =
         Inr ({} \<union> changed_modules cache JavascriptParser_new rt (leaves defs None))
     \<and> run cache JavascriptParser_new rt defs None {} = Inr {''/src/a.js''})"
  using run_invalidates [where defs = "PlainObject [(''FOO'', Number ''2''),
                            (''BAR'', Object (PlainObject [(''BAZ'', String ''x'')])),
                            (''QUX'', Boolean True)]"
      and prefix = None and newParser = JavascriptParser_new
      and rt = "\<lparr>supportsBigIntLiteral = True\<rparr>"
      and cache = "\<lparr>values = [''FOO'' \<mapsto> ''1'', ''BAR.BAZ'' \<mapsto> ''x''],
        modulesUsingKey = [''FOO'' \<mapsto> [''/src/a.js''], ''BAR.BAZ'' \<mapsto> [''/src/b.js'']]\<rparr>"
      and invalid = "{}"]
  by (simp add: leaves.simps prefixed_def Let_def get_property_def Object_prototype_def)

text \<open>
  C1 as stated fails: the definition \<open>FOO: ""\<close> against a snapshot that holds the text \<open>1\<close>
  for \<open>FOO\<close>, and the definition \<open>FOO: 1\<close> against a snapshot that holds the empty text,
  both have a recomputed text that differs from the stored one, and the module recorded
  under \<open>FOO\<close> is not added.
\<close>

theorem run_differing_text_not_invalidated:
  "(let rt = \<lparr>supportsBigIntLiteral = True\<rparr>;
        modules = [''FOO'' \<mapsto> [''/src/a.js'']]
    in toCode (String []) JavascriptParser_new rt AsiNull = Inr ([], JavascriptParser_new)
     \<and> [] \<noteq> ''1''
     \<and> run \<lparr>values = [''FOO'' \<mapsto> ''1''], modulesUsingKey = modules\<rparr> JavascriptParser_new rt
           (PlainObject [(''FOO'', String [])]) None {} = Inr {}
     \<and> toCode (Number ''1'') JavascriptParser_new rt AsiNull = Inr (''1'', JavascriptParser_new)
     \<and> ''1'' \<noteq> []
     \<and> run \<lparr>values = [''FOO'' \<mapsto> []], modulesUsingKey = modules\<rparr> JavascriptParser_new rt
           (PlainObject [(''FOO'', Number ''1'')]) None {} = Inr {})"
  by (simp add: prefixed_def Let_def get_property_def)

text \<open>
  A snapshot key that is not the key of a leaf is outside what is stated above.  Such a key
  is what a definition \<open>typeof a\<close> is recorded under, the key \<open>a\<close>, when the tree has no
  definition \<open>a\<close>: whatever the text of the definition has become, \<open>run\<close> looks up
  \<open>typeof a\<close> and compares nothing.
\<close>

lemma run_typeof_only_key:
  "run \<lparr>values = [''a'' \<mapsto> [CHR 0x22] @ ''string'' @ [CHR 0x22]],
        modulesUsingKey = [''a'' \<mapsto> [''/src/m.js'']]\<rparr> JavascriptParser_new rt
      (PlainObject [(''typeof a'', String ([CHR 0x22] @ ''number'' @ [CHR 0x22]))]) None {} = Inr {}"
  by (simp add: prefixed_def get_property_def Object_prototype_def)

text \<open>
  C10.  A leaf key whose recomputed text is empty, or for which the snapshot holds the
  empty text, contributes nothing, whether or not the two texts differ: \<open>run\<close> gives the
  same result with and without that key.
\<close>

theorem run_skips_empty:
  assumes leaf: "\<not> (typeof v = ''object'' \<and> \<not> instanceof_RuntimeValue v \<and> \<not> instanceof_RegExp v)"
      and tc: "toCode v newParser rt AsiNull = Inr (codeStr, p)"
      and empty: "codeStr = [] \<or> values cache (prefixed prefix key) = Some []"
  shows "run cache newParser rt (PlainObject (before @ (key, v) # after)) prefix invalid =
         run cache newParser rt (PlainObject (before @ after)) prefix invalid"
proof -
  have "run_key cache newParser rt prefix (key, v) s = Inr s" for s
    using leaf tc empty by (auto simp: Let_def get_property_def)
  then have "run cache newParser rt (PlainObject (before @ [(key, v)] @ after)) prefix invalid =
        run cache newParser rt (PlainObject (before @ after)) prefix invalid"
    by (simp add: forEach_append split: sum.splits)
  then show ?thesis by simp
qed

theorem run_skips_empty_witness:
  "(let cache = \<lparr>values = [''FOO'' \<mapsto> []], modulesUsingKey = [''FOO'' \<mapsto> [''/src/a.js'']]\<rparr>;
        rt = \<lparr>supportsBigIntLiteral = True\<rparr>
    in run cache JavascriptParser_new rt (PlainObject ([] @ (''FOO'', Number ''1'') # [])) None {} =
       run cache JavascriptParser_new rt (PlainObject ([] @ [])) None {}
     \<and> run cache JavascriptParser_new rt (PlainObject ([] @ [])) None {} = Inr {})"
  using run_skips_empty [of "Number ''1''" JavascriptParser_new "\<lparr>supportsBigIntLiteral = True\<rparr>"
      "''1''" JavascriptParser_new
      "\<lparr>values = [''FOO'' \<mapsto> []], modulesUsingKey = [''FOO'' \<mapsto> [''/src/a.js'']]\<rparr>"
      None "''FOO''" "[]" "[]" "{}"]
  by (simp add: prefixed_def Let_def)

lemma run_error_TypeError:
  "run cache newParser rt obj prefix invalid = Inl e \<Longrightarrow> e = TypeError"
  "run_key cache newParser rt prefix entry paths = Inl e \<Longrightarrow> e = TypeError"
proof (induction cache newParser rt obj prefix invalid and cache newParser rt prefix entry paths
       rule: run_run_key.induct)
  case (1 cache newParser rt obj prefix invalid)
  then show ?case
    by (auto dest!: forEach_error)
next
  case (2 cache newParser rt prefix key v paths)
  show ?case
  proof (cases "\<exists>child. v = Object child")
    case True
    with 2 show ?thesis by auto
  next
    case False
    with "2.prems" show ?thesis
      by (cases v) (auto simp: Let_def exec_def
                         split: sum.splits if_splits option.splits property.splits
                         dest: toCode_error_TypeError)
  qed
qed

lemma run_RuntimeValue_fails:
  "state newParser = None \<Longrightarrow> (k, RuntimeValue fn deps) \<in> set (leaves obj prefix) \<Longrightarrow>
   \<exists>e. run cache newParser rt obj prefix invalid = Inl e"
  "state newParser = None \<Longrightarrow> (k, RuntimeValue fn deps) \<in> set (leaves_key prefix entry) \<Longrightarrow>
   \<exists>e. run_key cache newParser rt prefix entry paths = Inl e"
proof (induction cache newParser rt obj prefix invalid
         and cache newParser rt prefix entry paths
       rule: run_run_key.induct)
  case (1 cache newParser rt obj prefix invalid)
  from "1.prems" obtain entry where e: "entry \<in> set (entries obj)"
    and "(k, RuntimeValue fn deps) \<in> set (leaves_key prefix entry)"
    by (subst (asm) leaves.simps) auto
  with "1.prems"(1)
  have "\<exists>e. run_key cache newParser rt prefix entry s = Inl e" for s
    by (intro "1.IH")
  from forEach_fails[OF e, of "\<lambda>entry paths. run_key cache newParser rt prefix entry paths", OF this]
  show ?case by simp
next
  case (2 cache newParser rt prefix key v paths)
  show ?case
  proof (cases "\<exists>child. v = Object child")
    case True
    with 2 show ?thesis by auto
  next
    case False
    with "2.prems" have "v = RuntimeValue fn deps"
      by (cases v) auto
    with "2.prems"(1) show ?thesis
      by (simp add: exec_def)
  qed
qed

text \<open>
  C5.  The recomputation does not complete when a leaf is a Runtime Value: \<open>exec\<close> reads the
  module of the parser it is given, so with a parser that has no state (as the one the
  reconciler creates) \<open>run\<close> ends with a TypeError.
\<close>

theorem run_RuntimeValue_throws:
  assumes "state newParser = None"
      and "(k, RuntimeValue fn deps) \<in> set (leaves defs prefix)"
  shows "run cache newParser rt defs prefix invalid = Inl TypeError"
proof -
  obtain e where "run cache newParser rt defs prefix invalid = Inl e"
    using run_RuntimeValue_fails(1)[OF assms] by blast
  moreover from this have "e = TypeError"
    by (rule run_error_TypeError(1))
  ultimately show ?thesis by simp
qed

theorem run_RuntimeValue_throws_witness:
  "state JavascriptParser_new = None
 \<and> run \<lparr>values = [''FOO'' \<mapsto> ''1''], modulesUsingKey = [''FOO'' \<mapsto> [''/src/a.js'']]\<rparr>
      JavascriptParser_new \<lparr>supportsBigIntLiteral = True\<rparr>
      (PlainObject [(''FOO'', RuntimeValue (\<lambda>m. Number ''1'') DepsTrue)]) None {} = Inl TypeError"
  using run_RuntimeValue_throws [of JavascriptParser_new "''FOO''" "\<lambda>m. Number ''1''" DepsTrue
      "PlainObject [(''FOO'', RuntimeValue (\<lambda>m. Number ''1'') DepsTrue)]" None]
  by (simp add: leaves.simps prefixed_def JavascriptParser_new_def)

text \<open>
  A leaf key that names a property of \<^verbatim>\<open>Object.prototype\<close>, against a snapshot that has no
  property of its own under that name: \<open>constructor\<close> is found by the \<^verbatim>\<open>in\<close> test, has a
  positive \<^verbatim>\<open>length\<close> and differs from the text, and the read of the module list throws;
  \<open>toString\<close> has the \<^verbatim>\<open>length\<close> 0 and is skipped.
\<close>

lemma run_inherited_key:
  "run \<lparr>values = Map.empty, modulesUsingKey = Map.empty\<rparr> JavascriptParser_new rt
      (PlainObject [(''constructor'', Number ''1'')]) None {} = Inl TypeError"
  "run \<lparr>values = Map.empty, modulesUsingKey = Map.empty\<rparr> JavascriptParser_new rt
      (PlainObject [(''toString'', Number ''1'')]) None {} = Inr {}"
  by (simp_all add: prefixed_def get_property_def Object_prototype_def)

subsection \<open>Resolution Gate\<close>

lemma tapInfo_fn_resolved:
  assumes "reconcilePromise g = Resolved" "cacheEmpty g \<longrightarrow> invalidModulePaths g = {}"
    "context_issuer req \<noteq> None"
  shows "tapInfo_fn pd pr orig req g =
     (let hit = modulePath_of pd pr req \<in> invalidModulePaths g;
          req' = (if hit then req\<lparr>forceRealResolve := True\<rparr> else req)
      in (g\<lparr>invalidModulePaths := invalidModulePaths g - (if hit then {modulePath_of pd pr req} else {})\<rparr>,
          if orig req' = None then [req'] else [req', req']))"
  using assms
  by (auto simp: tapInfo_fn_def then_handler_def modulePath_of_def Let_def split: option.splits)

lemma lookups_resolved:
  assumes "reconcilePromise g = Resolved" "cacheEmpty g \<longrightarrow> invalidModulePaths g = {}"
    "\<forall>r \<in> set reqs. context_issuer r \<noteq> None"
  shows "fst (lookups pd pr orig reqs g) =
           g\<lparr>invalidModulePaths := invalidModulePaths g - modulePath_of pd pr ` set reqs\<rparr>
       \<and> length (snd (lookups pd pr orig reqs g)) = length reqs
       \<and> (\<forall>i < length reqs.
            snd (lookups pd pr orig reqs g) ! i =
              (let req = reqs ! i;
                   first_hit = (modulePath_of pd pr req \<in> invalidModulePaths g
                        \<and> modulePath_of pd pr req \<notin> modulePath_of pd pr ` set (take i reqs));
                   req' = (if first_hit then req\<lparr>forceRealResolve := True\<rparr> else req)
               in if orig req' = None then [req'] else [req', req']))"
  using assms
proof (induction reqs arbitrary: g)
  case Nil
  then show ?case by simp
next
  case (Cons r rs)
  define g' where "g' = fst (tapInfo_fn pd pr orig r g)"
  have g': "g' = g\<lparr>invalidModulePaths := invalidModulePaths g -
      (if modulePath_of pd pr r \<in> invalidModulePaths g then {modulePath_of pd pr r} else {})\<rparr>"
    using Cons.prems by (simp add: g'_def tapInfo_fn_resolved Let_def)
  have pre: "reconcilePromise g' = Resolved" "cacheEmpty g' \<longrightarrow> invalidModulePaths g' = {}"
    "\<forall>r \<in> set rs. context_issuer r \<noteq> None"
    using Cons.prems by (simp_all add: g')
  note IH = Cons.IH[OF pre]
  have unfold: "lookups pd pr orig (r # rs) g =
      (fst (lookups pd pr orig rs g'), snd (tapInfo_fn pd pr orig r g) # snd (lookups pd pr orig rs g'))"
    by (simp add: g'_def split: prod.splits)
  have inv': "invalidModulePaths g' = invalidModulePaths g - {modulePath_of pd pr r}"
    by (auto simp: g')
  have 1: "fst (lookups pd pr orig (r # rs) g) =
      g\<lparr>invalidModulePaths := invalidModulePaths g - modulePath_of pd pr ` set (r # rs)\<rparr>"
  proof -
    have "fst (lookups pd pr orig (r # rs) g) = fst (lookups pd pr orig rs g')"
      by (simp only: unfold fst_conv)
    also have "\<dots> = g'\<lparr>invalidModulePaths := invalidModulePaths g' - modulePath_of pd pr ` set rs\<rparr>"
      using IH by blast
    also have "invalidModulePaths g' - modulePath_of pd pr ` set rs =
        invalidModulePaths g - modulePath_of pd pr ` set (r # rs)"
      by (auto simp: inv')
    also have "g'\<lparr>invalidModulePaths := invalidModulePaths g - modulePath_of pd pr ` set (r # rs)\<rparr> =
        g\<lparr>invalidModulePaths := invalidModulePaths g - modulePath_of pd pr ` set (r # rs)\<rparr>"
      by (subst g') simp
    finally show ?thesis .
  qed
  have 2: "length (snd (lookups pd pr orig (r # rs) g)) = length (r # rs)"
    using IH by (simp only: unfold snd_conv length_Cons)
  have 3: "snd (lookups pd pr orig (r # rs) g) ! i =
              (let req = (r # rs) ! i;
                   first_hit = (modulePath_of pd pr req \<in> invalidModulePaths g
                        \<and> modulePath_of pd pr req \<notin> modulePath_of pd pr ` set (take i (r # rs)));
                   req' = (if first_hit then req\<lparr>forceRealResolve := True\<rparr> else req)
               in if orig req' = None then [req'] else [req', req'])"
    if "i < length (r # rs)" for i
  proof (cases i)
    case 0
    then show ?thesis
      using Cons.prems by (simp add: unfold tapInfo_fn_resolved Let_def del: lookups.simps)
  next
    case (Suc j)
    with that have "j < length rs" by simp
    with IH have "snd (lookups pd pr orig rs g') ! j =
              (let req = rs ! j;
                   first_hit = (modulePath_of pd pr req \<in> invalidModulePaths g'
                        \<and> modulePath_of pd pr req \<notin> modulePath_of pd pr ` set (take j rs));
                   req' = (if first_hit then req\<lparr>forceRealResolve := True\<rparr> else req)
               in if orig req' = None then [req'] else [req', req'])"
      by blast
    then show ?thesis
      by (auto simp: unfold Suc inv' Let_def simp del: lookups.simps)
  qed
  from 1 2 3 show ?case by blast
qed

lemma first_load_invariant:
  assumes "cache_get_callback JSON_parse newParser rt defs err raw initial_globals = Inr g"
  shows "reconcilePromise g \<noteq> Pending \<and> (cacheEmpty g \<longrightarrow> invalidModulePaths g = {})"
  using assms
  by (auto simp: cache_get_callback_def initial_globals_def settle_def
           split: option.splits if_splits sum.splits)

text \<open>
  After the first load of a process the gate is one-shot.  Once the load has resolved, in
  a state where the invalidation set is empty whenever \<open>cacheEmpty\<close> is set, consider
  the lookups in order, each for a request whose issuer is a string.  A lookup marks its
  request to bypass the resolver cache exactly when its path is in the invalidation set and
  no earlier lookup was for that path; every lookup calls the original handler with its
  request, marked or not (once, and once more from the \<open>catch\<close> handler when the original
  handler throws); and afterwards the paths looked up are gone from the set.
\<close>

lemma gate_after_first_load:
  assumes "reconcilePromise g = Resolved" and "cacheEmpty g \<longrightarrow> invalidModulePaths g = {}"
      and "\<forall>r \<in> set reqs. context_issuer r \<noteq> None" and "i < length reqs"
  shows "snd (lookups path_dirname path_resolve originalTapFn reqs g) ! i =
           (let req = reqs ! i;
                modulePath = modulePath_of path_dirname path_resolve req;
                first_hit = (modulePath \<in> invalidModulePaths g
                     \<and> modulePath \<notin> modulePath_of path_dirname path_resolve ` set (take i reqs));
                req' = (if first_hit then req\<lparr>forceRealResolve := True\<rparr> else req)
            in if originalTapFn req' = None then [req'] else [req', req'])
       \<and> invalidModulePaths (fst (lookups path_dirname path_resolve originalTapFn reqs g)) =
           invalidModulePaths g - modulePath_of path_dirname path_resolve ` set reqs"
  using lookups_resolved[OF assms(1-3), of path_dirname path_resolve originalTapFn] assms(4)
  by (simp add: Let_def)

text \<open>
  \<open>cacheEmpty\<close> is set by a load that finds no snapshot and is never cleared.  While it is
  set and the promise is resolved, no lookup consults the invalidation set: every request
  goes to the original handler unmarked and the set stays as it is.
\<close>

lemma lookups_cacheEmpty:
  "cacheEmpty g \<Longrightarrow> reconcilePromise g = Resolved \<Longrightarrow>
   lookups pd pr orig reqs g =
     (g, map (\<lambda>req. if orig req = None then [req] else [req, req]) reqs)"
  by (induction reqs) (auto simp: tapInfo_fn_def then_handler_def split: option.splits)

lemma cacheEmpty_stays:
  "cache_get_callback JSON_parse newParser rt defs err raw g = Inr g' \<Longrightarrow> cacheEmpty g \<Longrightarrow>
   cacheEmpty g'"
  by (auto simp: cache_get_callback_def split: option.splits if_splits sum.splits)

text \<open>
  C3.  The claim fails in a process that loads twice.  The first load finds no snapshot and
  sets \<open>cacheEmpty\<close>.  A later load, with the definitions \<open>{FOO: 2}\<close>, finds a snapshot that
  holds the text \<open>1\<close> for \<open>FOO\<close>, used by \<open>/src/a.js\<close>, and puts that path into the
  invalidation set; it may be a load of the same compiler, whose promise is resolved
  already, or of another compiler, which has a promise of its own.  The lookup of
  \<open>./a.js\<close> from \<open>/src/index.js\<close> that follows is for a path in the set, and yet the
  request reaches the original handler unmarked and the path stays in the set.
\<close>

theorem stale_cacheEmpty_disables_gate:
  "(let pd = (\<lambda>issuer. ''/src'');
        pr = (\<lambda>dir req. dir @ ''/'' @ req);
        orig = (\<lambda>req. None);
        rt = \<lparr>supportsBigIntLiteral = True\<rparr>;
        definitions = PlainObject [(''FOO'', Number ''2'')];
        snapshot = \<lparr>values = [''FOO'' \<mapsto> ''1''], modulesUsingKey = [''FOO'' \<mapsto> [''/src/a.js'']]\<rparr>;
        a = \<lparr>context_issuer = Some ''/src/index.js'', request_request = ''a.js'',
             forceRealResolve = False\<rparr>;
        later_load = (\<lambda>g.
          case cache_get_callback (\<lambda>raw. Inr snapshot) JavascriptParser_new rt definitions
                 None (Some ''snapshot'') g of
            Inl e \<Rightarrow> False
          | Inr g2 \<Rightarrow>
              reconcilePromise g2 = Resolved
            \<and> invalidModulePaths g2 = {''/src/a.js''}
            \<and> modulePath_of pd pr a \<in> invalidModulePaths g2
            \<and> lookups pd pr orig [a] g2 = (g2, [[a]]))
    in case cache_get_callback (\<lambda>raw. Inr snapshot) JavascriptParser_new rt definitions
              None None initial_globals of
         Inl e \<Rightarrow> False
       | Inr g1 \<Rightarrow>
           cacheEmpty g1 \<and> reconcilePromise g1 = Resolved \<and> invalidModulePaths g1 = {}
         \<and> later_load g1
         \<and> later_load (g1\<lparr>reconcilePromise := Pending\<rparr>))"
  by (simp add: Let_def initial_globals_def modulePath_of_def tapInfo_fn_def then_handler_def
        cache_get_callback_def settle_def prefixed_def JavascriptParser_new_def get_property_def)




subsection \<open>Persisting the snapshot\<close>

lemma hookCallback_flags:
  "didAfterCompileHookRun (snd (hookCallback key returned m g)) = didAfterCompileHookRun g"
  "didCodeGeneration (snd (hookCallback key returned m g)) = (didCodeGeneration g \<or> returned \<noteq> None)"
  by (auto simp: hookCallback_def Let_def split: option.splits property.splits)

text \<open>
  The wrapper for a key that names a property of \<^verbatim>\<open>Object.prototype\<close> throws, after it
  has set the flag and written the text.
\<close>

lemma hookCallback_inherited_key:
  "hookCallback ''constructor'' (Some (Some ''1'', True)) example_module initial_globals =
     (Inl TypeError,
      initial_globals\<lparr>didCodeGeneration := True,
        state_g := \<lparr>values = [''constructor'' \<mapsto> ''1''], modulesUsingKey = Map.empty\<rparr>\<rparr>)"
  by (simp add: hookCallback_def get_property_def set_property_def Object_prototype_def
        initial_globals_def Let_def)

lemma build_events_general:
  "(case build_events js evs g of (g', stored) \<Rightarrow>
      length stored \<le> 1
    \<and> (stored \<noteq> [] \<longleftrightarrow>
          \<not> didAfterCompileHookRun g
        \<and> (\<exists>pre post. evs = pre @ AfterCompile # post
              \<and> (didCodeGeneration g \<or> (\<exists>key strCode m. Behaviour key (Some strCode) m \<in> set pre))))
    \<and> (didAfterCompileHookRun g' \<longleftrightarrow> didAfterCompileHookRun g \<or> stored \<noteq> []))"
proof (induction evs arbitrary: g)
  case Nil
  then show ?case by simp
next
  case (Cons ev evs)
  show ?case
  proof (cases ev)
    case (Behaviour key returned m)
    define g1 where "g1 = snd (hookCallback key (map_option (\<lambda>strCode. (Some strCode, True)) returned) m g)"
    have ran: "didAfterCompileHookRun g1 = didAfterCompileHookRun g"
      and gen: "didCodeGeneration g1 = (didCodeGeneration g \<or> returned \<noteq> None)"
      by (simp_all add: g1_def hookCallback_flags)
    have step: "build_events js (ev # evs) g = build_events js evs g1"
      by (simp add: Behaviour g1_def)
    have split: "(\<exists>pre post. ev # evs = pre @ AfterCompile # post
              \<and> (didCodeGeneration g \<or> (\<exists>key strCode m. Behaviour key (Some strCode) m \<in> set pre)))
        \<longleftrightarrow> (\<exists>pre post. evs = pre @ AfterCompile # post
              \<and> (didCodeGeneration g1 \<or> (\<exists>key strCode m. Behaviour key (Some strCode) m \<in> set pre)))"
      (is "?L \<longleftrightarrow> ?R")
    proof
      assume ?L
      then obtain pre post where eq: "ev # evs = pre @ AfterCompile # post"
        and c: "didCodeGeneration g \<or> (\<exists>key strCode m. Behaviour key (Some strCode) m \<in> set pre)"
        by blast
      from eq Behaviour obtain pre' where pre: "pre = ev # pre'" and evs: "evs = pre' @ AfterCompile # post"
        by (cases pre) auto
      from c pre Behaviour have "didCodeGeneration g1 \<or> (\<exists>key strCode m. Behaviour key (Some strCode) m \<in> set pre')"
        by (auto simp: gen)
      with evs show ?R by blast
    next
      assume ?R
      then obtain pre post where evs: "evs = pre @ AfterCompile # post"
        and c: "didCodeGeneration g1 \<or> (\<exists>key strCode m. Behaviour key (Some strCode) m \<in> set pre)"
        by blast
      have "ev # evs = (ev # pre) @ AfterCompile # post"
        by (simp add: evs)
      moreover from c have "didCodeGeneration g \<or> (\<exists>key strCode m. Behaviour key (Some strCode) m \<in> set (ev # pre))"
        by (auto simp: gen Behaviour)
      ultimately show ?L by blast
    qed
    from Cons.IH[of g1] show ?thesis
      unfolding step split ran by simp
  next
    case AfterCompile
    show ?thesis
    proof (cases "\<not> didAfterCompileHookRun g \<and> didCodeGeneration g")
      case True
      define g1 where "g1 = g\<lparr>didAfterCompileHookRun := True\<rparr>"
      have ac: "afterCompile js g = (g1, Some (js (state_g g)))"
        using True by (simp add: afterCompile_def g1_def)
      have "didAfterCompileHookRun g1" by (simp add: g1_def)
      with Cons.IH[of g1] obtain g2 where rest: "build_events js evs g1 = (g2, [])"
        and ran: "didAfterCompileHookRun g2"
        by (cases "build_events js evs g1") auto
      have "ev # evs = [] @ AfterCompile # evs"
        by (simp add: AfterCompile)
      with True have "\<exists>pre post. ev # evs = pre @ AfterCompile # post
              \<and> (didCodeGeneration g \<or> (\<exists>key strCode m. Behaviour key (Some strCode) m \<in> set pre))"
        by blast
      with True rest ran show ?thesis
        by (simp add: AfterCompile ac)
    next
      case False
      then have ac: "afterCompile js g = (g, None)"
        by (auto simp: afterCompile_def)
      have split: "(\<exists>pre post. ev # evs = pre @ AfterCompile # post
              \<and> (didCodeGeneration g \<or> (\<exists>key strCode m. Behaviour key (Some strCode) m \<in> set pre)))
        \<longleftrightarrow> (\<exists>pre post. evs = pre @ AfterCompile # post
              \<and> (didCodeGeneration g \<or> (\<exists>key strCode m. Behaviour key (Some strCode) m \<in> set pre)))"
        (is "?L \<longleftrightarrow> ?R") if nr: "\<not> didAfterCompileHookRun g"
      proof
        from nr False have ng: "\<not> didCodeGeneration g" by simp
        assume ?L
        then obtain pre post where eq: "ev # evs = pre @ AfterCompile # post"
          and c: "\<exists>key strCode m. Behaviour key (Some strCode) m \<in> set pre"
          using ng by blast
        from c obtain pre' where pre: "pre = ev # pre'"
          using eq by (cases pre) auto
        with eq have "evs = pre' @ AfterCompile # post" by simp
        moreover from c pre AfterCompile have "\<exists>key strCode m. Behaviour key (Some strCode) m \<in> set pre'"
          by auto
        ultimately show ?R by blast
      next
        assume ?R
        then obtain pre post where evs: "evs = pre @ AfterCompile # post"
          and c: "didCodeGeneration g \<or> (\<exists>key strCode m. Behaviour key (Some strCode) m \<in> set pre)"
          by blast
        have "ev # evs = (ev # pre) @ AfterCompile # post"
          by (simp add: evs)
        moreover from c have "didCodeGeneration g \<or> (\<exists>key strCode m. Behaviour key (Some strCode) m \<in> set (ev # pre))"
          by auto
        ultimately show ?L by blast
      qed
      have step: "build_events js (ev # evs) g = build_events js evs g"
        by (simp add: AfterCompile ac split: prod.splits)
      show ?thesis
      proof (cases "didAfterCompileHookRun g")
        case True
        with Cons.IH[of g] show ?thesis
          unfolding step by simp
      next
        case nr: False
        from Cons.IH[of g] show ?thesis
          unfolding step split[OF nr] by simp
      qed
    qed
  qed
qed

lemma build_events_stored_state:
  "s \<in> set (snd (build_events js evs g)) \<Longrightarrow>
   \<exists>pre post. evs = pre @ AfterCompile # post \<and> s = js (state_g (fst (build_events js pre g)))"
proof (induction evs arbitrary: g)
  case Nil
  then show ?case by simp
next
  case (Cons ev evs)
  show ?case
  proof (cases ev)
    case (Behaviour key returned m)
    define g1 where "g1 = snd (hookCallback key (map_option (\<lambda>strCode. (Some strCode, True)) returned) m g)"
    from Cons.prems have "s \<in> set (snd (build_events js evs g1))"
      by (simp add: Behaviour g1_def)
    from Cons.IH[OF this] obtain pre post where "evs = pre @ AfterCompile # post"
      and "s = js (state_g (fst (build_events js pre g1)))"
      by blast
    then have "ev # evs = (ev # pre) @ AfterCompile # post"
      and "s = js (state_g (fst (build_events js (ev # pre) g)))"
      by (simp_all add: Behaviour g1_def)
    then show ?thesis by blast
  next
    case AfterCompile
    obtain g1 st where ac: "afterCompile js g = (g1, st)"
      by (cases "afterCompile js g")
    from Cons.prems consider "st = Some s" | "s \<in> set (snd (build_events js evs g1))"
      by (auto simp: AfterCompile ac split: prod.splits option.splits)
    then show ?thesis
    proof cases
      case 1
      with ac have "s = js (state_g g)"
        by (auto simp: afterCompile_def split: if_splits)
      then have "ev # evs = [] @ AfterCompile # evs \<and> s = js (state_g (fst (build_events js [] g)))"
        by (simp add: AfterCompile)
      then show ?thesis by blast
    next
      case 2
      from Cons.IH[OF this] obtain pre post where "evs = pre @ AfterCompile # post"
        and "s = js (state_g (fst (build_events js pre g1)))"
        by blast
      then have "ev # evs = (ev # pre) @ AfterCompile # post"
        and "s = js (state_g (fst (build_events js (ev # pre) g)))"
        by (simp_all add: AfterCompile ac split: prod.splits)
      then show ?thesis by blast
    qed
  qed
qed
text \<open>
  The first build of a process persists once.  Starting with neither flag set, whatever
  behaviours fire and however often \<open>afterCompile\<close> is called: the state is given to the
  store at most once; it is stored exactly when some \<open>afterCompile\<close> call comes after a
  behaviour that returned a result; what is stored is the Run State as it is at an
  \<open>afterCompile\<close> call; and once it has been stored, a further \<open>afterCompile\<close> call
  changes nothing and stores nothing.
\<close>

lemma first_build_persists_once:
  assumes "\<not> didAfterCompileHookRun g" and "\<not> didCodeGeneration g"
  shows "(case build_events JSON_stringify_state evs g of (g', stored) \<Rightarrow>
            length stored \<le> 1
          \<and> (stored \<noteq> [] \<longleftrightarrow>
               (\<exists>pre post. evs = pre @ AfterCompile # post
                  \<and> (\<exists>key strCode m. Behaviour key (Some strCode) m \<in> set pre)))
          \<and> (\<forall>s \<in> set stored. \<exists>pre post. evs = pre @ AfterCompile # post
                  \<and> s = JSON_stringify_state (state_g (fst (build_events JSON_stringify_state pre g))))
          \<and> (didAfterCompileHookRun g' \<longleftrightarrow> stored \<noteq> [])
          \<and> (didAfterCompileHookRun g' \<longrightarrow> afterCompile JSON_stringify_state g' = (g', None)))"
proof -
  obtain g' stored where be: "build_events JSON_stringify_state evs g = (g', stored)"
    by (cases "build_events JSON_stringify_state evs g")
  from build_events_general[where js = JSON_stringify_state and evs = evs and g = g] assms be
  have "length stored \<le> 1"
    and "stored \<noteq> [] \<longleftrightarrow>
               (\<exists>pre post. evs = pre @ AfterCompile # post
                  \<and> (\<exists>key strCode m. Behaviour key (Some strCode) m \<in> set pre))"
    and "didAfterCompileHookRun g' \<longleftrightarrow> stored \<noteq> []"
    by simp_all
  moreover have "\<forall>s \<in> set stored. \<exists>pre post. evs = pre @ AfterCompile # post
        \<and> s = JSON_stringify_state (state_g (fst (build_events JSON_stringify_state pre g)))"
    using build_events_stored_state[where js = JSON_stringify_state and evs = evs and g = g] be
    by simp
  moreover have "didAfterCompileHookRun g' \<longrightarrow> afterCompile JSON_stringify_state g' = (g', None)"
    by (simp add: afterCompile_def)
  ultimately show ?thesis
    unfolding be by simp
qed

text \<open>
  \<open>didAfterCompileHookRun\<close> is set when the state is stored and is never cleared.  From
  then on nothing is stored, whatever fires.
\<close>

lemma stored_flag_blocks:
  "didAfterCompileHookRun g \<Longrightarrow> snd (build_events JSON_stringify_state evs g) = []"
  using build_events_general[where js = JSON_stringify_state and evs = evs and g = g]
  by (auto split: prod.splits)

text \<open>
  C4.  The claim fails for the second build of a process.  In the first build the
  substitution of \<open>FOO\<close> by \<open>1\<close> is recorded in \<open>/src/a.js\<close> and \<open>afterCompile\<close> stores the
  state.  In the second build the substitution of \<open>FOO\<close> by \<open>2\<close> is recorded, so both
  conditions of the claim hold when \<open>afterCompile\<close> is called, and nothing is stored.
\<close>

theorem second_build_not_persisted:
  "(let m = \<lparr>request = ''/src/a.js'', buildInfo = \<lparr>cacheable = True, fileDependencies = {}\<rparr>\<rparr>;
        js = (\<lambda>st. case values st ''FOO'' of None \<Rightarrow> ''{}'' | Some strCode \<Rightarrow> ''FOO='' @ strCode)
    in case build_events js [Behaviour ''FOO'' (Some ''1'') m, AfterCompile] initial_globals of
         (g1, stored1) \<Rightarrow>
           stored1 = [''FOO=1'']
         \<and> (case build_events js [Behaviour ''FOO'' (Some ''2'') m, AfterCompile] g1 of
              (g2, stored2) \<Rightarrow>
                values (state_g g2) ''FOO'' = Some ''2''
              \<and> modulesUsingKey (state_g g2) ''FOO'' = Some [''/src/a.js'', ''/src/a.js'']
              \<and> didCodeGeneration g2
              \<and> stored2 = []))"
  by (simp add: initial_globals_def afterCompile_def hookCallback_def Let_def
        get_property_def set_property_def Object_prototype_def)

subsection \<open>Substitution Registrar\<close>

lemma bail_no_result:
  "(\<And>t s. t \<in> set ts \<Longrightarrow> f t s = Inr (None, s)) \<Longrightarrow> bail f ts s = Inr (None, s)"
  by (induction ts arbitrary: s) auto

lemma wrapped_no_result: "wrapped key m (Inr (None, st)) = Inr (None, st)"
  by (cases st) (simp add: wrapped_def hookCallback_def)

lemma call_evaluateIdentifier_first:
  assumes "identifier_taps defs name = (i, ApplyDefine key code) # rest"
    and "(i, Recurse) \<notin> active"
    and "call_evaluateIdentifier parse rt defs m active name st = Inr (r, st')"
  shows "r \<noteq> None"
  using assms
  by (auto simp: call_evaluateIdentifier.simps evaluateIdentifier_callback_def wrapped_def
        hookCallback_def Let_def
        split: sum.splits prod.splits option.splits property.splits)

lemma call_evaluateTypeof_first:
  assumes "typeof_taps defs name = (i, ApplyDefine key code) # rest"
    and "(i, RecurseTypeof) \<notin> active"
    and "call_evaluateTypeof parse rt defs m active name st = Inr (r, st')"
  shows "r \<noteq> None"
  using assms
  by (auto simp: call_evaluateTypeof.simps evaluateTypeof_callback_def wrapped_def Let_def
        hookCallback_def
        split: sum.splits prod.splits option.splits property.splits)

lemma map_threading_returns:
  assumes "\<And>x p. x \<in> set xs \<Longrightarrow> state p \<noteq> None \<Longrightarrow>
             \<exists>y p'. f x p = Inr (y, p') \<and> state p' \<noteq> None"
    and "state p \<noteq> None"
  shows "\<exists>ys p'. map_threading f xs p = Inr (ys, p') \<and> state p' \<noteq> None"
  using assms
proof (induction xs arbitrary: p)
  case Nil
  then show ?case by simp
next
  case (Cons x xs)
  from Cons.prems obtain y p1 where 1: "f x p = Inr (y, p1)" "state p1 \<noteq> None"
    by (meson list.set_intros(1))
  from Cons.IH[of p1] Cons.prems(1) 1(2)
  obtain ys p2 where "map_threading f xs p1 = Inr (ys, p2)" "state p2 \<noteq> None"
    by (meson list.set_intros(2))
  with 1 show ?case by simp
qed

lemma toCode_returns:
  "state p \<noteq> None \<Longrightarrow> \<exists>s p'. toCode v p rt asi = Inr (s, p') \<and> state p' \<noteq> None"
  "state p \<noteq> None \<Longrightarrow> \<exists>s p'. stringifyObj obj p rt asi = Inr (s, p') \<and> state p' \<noteq> None"
proof (induction v p rt asi and obj p rt asi rule: toCode_stringifyObj.induct)
  case (4 fn deps parser runtimeTemplate asiSafe)
  from "4.prems" obtain code parser' where ex: "exec fn deps parser = Inr (code, parser')"
    and "state parser' \<noteq> None"
    by (auto simp: exec_def Let_def)
  with "4.IH"[OF ex refl] show ?case
    by simp
next
  case (12 obj parser runtimeTemplate asiSafe)
  show ?case
  proof (cases obj)
    case (ArrayObject xs)
    have "\<exists>ys p'. map_threading (\<lambda>code p. toCode code p runtimeTemplate AsiNull) xs parser = Inr (ys, p')
        \<and> state p' \<noteq> None"
      by (rule map_threading_returns) (use "12.IH"(1)[OF refl ArrayObject] "12.prems" in auto)
    then show ?thesis
      by (auto simp: ArrayObject Let_def)
  next
    case (PlainObject kvs)
    have "\<exists>ys p'. map_threading (\<lambda>(key, code) p.
                            case toCode code p runtimeTemplate AsiNull of
                              Inl e \<Rightarrow> Inl e
                            | Inr (str, p') \<Rightarrow> Inr (JSON_stringify key @ '':'' @ str, p')) kvs parser
            = Inr (ys, p') \<and> state p' \<noteq> None"
    proof (rule map_threading_returns)
      fix x and p :: parser assume x: "x \<in> set kvs" and p: "state p \<noteq> None"
      obtain key code where kc: "x = (key, code)" by (cases x)
      from "12.IH"(2)[OF refl PlainObject x kc[symmetric] p]
      obtain s p' where "toCode code p runtimeTemplate AsiNull = Inr (s, p')" "state p' \<noteq> None"
        by auto
      then show "\<exists>y p'. (case x of (key, code) \<Rightarrow> \<lambda>p.
                            case toCode code p runtimeTemplate AsiNull of
                              Inl e \<Rightarrow> Inl e
                            | Inr (str, p') \<Rightarrow> Inr (JSON_stringify key @ '':'' @ str, p')) p
            = Inr (y, p') \<and> state p' \<noteq> None"
        by (simp add: kc)
    qed (use "12.prems" in simp)
    then show ?thesis
      by (auto simp: PlainObject Let_def)
  qed
qed auto

lemma bail_returns:
  assumes "\<And>t s. t \<in> set ts \<Longrightarrow> state (snd s) \<noteq> None \<Longrightarrow>
             \<exists>r s'. f t s = Inr (r, s') \<and> state (snd s') \<noteq> None"
    and "state (snd s) \<noteq> None"
  shows "\<exists>r s'. bail f ts s = Inr (r, s') \<and> state (snd s') \<noteq> None"
  using assms
proof (induction ts arbitrary: s)
  case Nil
  then show ?case by simp
next
  case (Cons t ts)
  from Cons.prems obtain r s1 where 1: "f t s = Inr (r, s1)" "state (snd s1) \<noteq> None"
    by (meson list.set_intros(1))
  show ?case
  proof (cases r)
    case None
    from Cons.IH[of s1] Cons.prems(1) 1(2)
    obtain r' s2 where "bail f ts s1 = Inr (r', s2)" "state (snd s2) \<noteq> None"
      by (meson list.set_intros(2))
    with 1 None show ?thesis by simp
  next
    case (Some a)
    with 1 show ?thesis by simp
  qed
qed

lemma evaluateIdentifier_callback_returns:
  assumes "\<And>text s'. \<not> recurse \<Longrightarrow> state (snd s') \<noteq> None \<Longrightarrow>
             \<exists>res s''. ev text s' = Inr (res, s'') \<and> state (snd s'') \<noteq> None"
    and "state (snd s) \<noteq> None"
  shows "\<exists>r s'. evaluateIdentifier_callback ev rt code recurse s = Inr (r, s')
            \<and> state (snd s') \<noteq> None"
proof (cases recurse)
  case True
  with assms(2) show ?thesis
    by (simp add: evaluateIdentifier_callback_def)
next
  case False
  from toCode_returns(1)[OF assms(2)] obtain strCode p' where
    tc: "toCode code (snd s) rt AsiNull = Inr (strCode, p')" and "state p' \<noteq> None"
    by blast
  with assms(1)[OF False, of "(fst s, p')" strCode] obtain res s'' where
    "ev strCode (fst s, p') = Inr (res, s'')" "state (snd s'') \<noteq> None"
    by auto
  with tc False show ?thesis
    by (simp add: evaluateIdentifier_callback_def)
qed

lemma evaluateTypeof_callback_returns:
  assumes "\<And>text s'. \<not> recurse \<Longrightarrow> state (snd s') \<noteq> None \<Longrightarrow>
             \<exists>res s''. ev text s' = Inr (res, s'') \<and> state (snd s'') \<noteq> None"
    and "state (snd s) \<noteq> None"
  shows "\<exists>r s'. evaluateTypeof_callback ev rt isT code recurse s = Inr (r, s')
            \<and> state (snd s') \<noteq> None"
proof (cases recurse)
  case True
  with assms(2) show ?thesis
    by (simp add: evaluateTypeof_callback_def)
next
  case False
  from toCode_returns(1)[OF assms(2)] obtain strCode p' where
    tc: "toCode code (snd s) rt AsiNull = Inr (strCode, p')" and "state p' \<noteq> None"
    by blast
  with assms(1)[OF False, of "(fst s, p')" "if isT then strCode else ''typeof ('' @ strCode @ '')''"]
  obtain res s'' where
    "ev (if isT then strCode else ''typeof ('' @ strCode @ '')'') (fst s, p') = Inr (res, s'')"
    "state (snd s'') \<noteq> None"
    by auto
  with tc False show ?thesis
    by (simp add: evaluateTypeof_callback_def Let_def)
qed

lemma hookCallback_returns:
  "Object_prototype key = None \<Longrightarrow> \<exists>result g'. hookCallback key returned m g = (Inr result, g')"
  by (auto simp: hookCallback_def get_property_def Let_def split: option.splits)

lemma wrapped_returns:
  assumes "Object_prototype key = None"
    and "\<exists>r s. returned = Inr (r, s) \<and> state (snd s) \<noteq> None"
  shows "\<exists>r s. wrapped key m returned = Inr (r, s) \<and> state (snd s) \<noteq> None"
proof -
  from assms(2) obtain r g p where ret: "returned = Inr (r, (g, p))" and p: "state p \<noteq> None"
    by auto
  from hookCallback_returns[OF assms(1)] obtain result g' where
    "hookCallback key r m g = (Inr result, g')"
    by blast
  with ret p show ?thesis
    by (simp add: wrapped_def)
qed

lemma taps_registered:
  "(i, reg) \<in> set (identifier_taps defs name) \<Longrightarrow> reg \<in> set defs"
  "(i, reg) \<in> set (typeof_taps defs name) \<Longrightarrow> reg \<in> set defs"
  "(i, ApplyDefine key code) \<in> set (identifier_taps defs name) \<Longrightarrow> strip_typeof key = key"
  by (auto simp: identifier_taps_def typeof_taps_def in_set_enumerate_eq strip_typeof_def)

lemma evaluate_returns:
  "\<forall>reg \<in> set defs. Object_prototype (hook_key reg) = None \<Longrightarrow> state (snd st) \<noteq> None \<Longrightarrow>
   \<exists>res st'. evaluate parse rt defs m active ev st = Inr (res, st') \<and> state (snd st') \<noteq> None"
  "\<forall>reg \<in> set defs. Object_prototype (hook_key reg) = None \<Longrightarrow> state (snd st) \<noteq> None \<Longrightarrow>
   \<exists>r st'. call_evaluateIdentifier parse rt defs m active name st = Inr (r, st')
      \<and> state (snd st') \<noteq> None"
  "\<forall>reg \<in> set defs. Object_prototype (hook_key reg) = None \<Longrightarrow> state (snd st) \<noteq> None \<Longrightarrow>
   \<exists>r st'. call_evaluateTypeof parse rt defs m active name st = Inr (r, st')
      \<and> state (snd st') \<noteq> None"
proof (induction parse rt defs m active ev st and parse rt defs m active name st
         and parse rt defs m active name st
       rule: evaluate_call_evaluateIdentifier_call_evaluateTypeof.induct)
  case (1 parse rt defs m active res st)
  then show ?case by simp
next
  case (2 parse rt defs m active name k st)
  from "2.IH"(1)[OF "2.prems"] obtain r st1 where
    c: "call_evaluateIdentifier parse rt defs m active name st = Inr (r, st1)"
    and s1: "state (snd st1) \<noteq> None"
    by blast
  from "2.IH"(2)[OF c refl "2.prems"(1) s1] c show ?case
    by simp
next
  case (3 parse rt defs m active name k st)
  from "3.IH"(1)[OF "3.prems"] obtain r st1 where
    c: "call_evaluateTypeof parse rt defs m active name st = Inr (r, st1)"
    and s1: "state (snd st1) \<noteq> None"
    by blast
  from "3.IH"(2)[OF c refl "3.prems"(1) s1] c show ?case
    by simp
next
  case (4 parse rt defs m active name st)
  show ?case
    unfolding call_evaluateIdentifier.simps
  proof (rule bail_returns)
    fix t and s :: "globals \<times> parser"
    assume t: "t \<in> set (identifier_taps defs name)" and s: "state (snd s) \<noteq> None"
    obtain i reg where tt: "t = (i, reg)" by (cases t)
    from t tt "4.prems"(1) have safe: "Object_prototype (hook_key reg) = None"
      using taps_registered(1) by blast
    show "\<exists>r s'. (case t of (i, reg) \<Rightarrow> \<lambda>s.
             case reg of
               ApplyDefine key code \<Rightarrow>
                 wrapped key m
                   (evaluateIdentifier_callback
                      (\<lambda>text s'. evaluate parse rt defs m (insert (i, Recurse) active)
                                   (evaluate_text parse text) s')
                      rt code ((i, Recurse) \<in> active) s)
             | ApplyObjectDefine key obj \<Rightarrow>
                 wrapped key m (object_evaluateIdentifier_callback parse s)) s = Inr (r, s')
          \<and> state (snd s') \<noteq> None"
    proof (cases reg)
      case (ApplyDefine key code)
      from t tt ApplyDefine have "strip_typeof key = key"
        using taps_registered(3) by blast
      with safe ApplyDefine have key: "Object_prototype key = None"
        by simp
      have "\<exists>r s'. evaluateIdentifier_callback
              (\<lambda>text s'. evaluate parse rt defs m (insert (i, Recurse) active)
                           (evaluate_text parse text) s')
              rt code ((i, Recurse) \<in> active) s = Inr (r, s') \<and> state (snd s') \<noteq> None"
        by (rule evaluateIdentifier_callback_returns)
           (use "4.IH"[OF t tt[symmetric] ApplyDefine _ "4.prems"(1)] s in auto)
      from wrapped_returns[OF key this] show ?thesis
        by (simp add: tt ApplyDefine)
    next
      case (ApplyObjectDefine key obj)
      with safe have key: "Object_prototype key = None"
        by simp
      have "\<exists>r s'. object_evaluateIdentifier_callback parse s = Inr (r, s')
          \<and> state (snd s') \<noteq> None"
        using s by (simp add: object_evaluateIdentifier_callback_def)
      from wrapped_returns[OF key this] show ?thesis
        by (simp add: tt ApplyObjectDefine)
    qed
  qed (rule "4.prems"(2))
next
  case (5 parse rt defs m active name st)
  show ?case
    unfolding call_evaluateTypeof.simps
  proof (rule bail_returns)
    fix t and s :: "globals \<times> parser"
    assume t: "t \<in> set (typeof_taps defs name)" and s: "state (snd s) \<noteq> None"
    obtain i reg where tt: "t = (i, reg)" by (cases t)
    from t tt "5.prems"(1) have safe: "Object_prototype (hook_key reg) = None"
      using taps_registered(2) by blast
    show "\<exists>r s'. (case t of (i, reg) \<Rightarrow> \<lambda>s.
             case reg of
               ApplyDefine key code \<Rightarrow>
                 wrapped (strip_typeof key) m
                   (evaluateTypeof_callback
                      (\<lambda>text s'. evaluate parse rt defs m (insert (i, RecurseTypeof) active)
                                   (evaluate_text parse text) s')
                      rt (is_typeof_key key) code ((i, RecurseTypeof) \<in> active) s)
             | ApplyObjectDefine key obj \<Rightarrow>
                 wrapped key m (object_evaluateTypeof_callback parse s)) s = Inr (r, s')
          \<and> state (snd s') \<noteq> None"
    proof (cases reg)
      case (ApplyDefine key code)
      with safe have key: "Object_prototype (strip_typeof key) = None"
        by simp
      have "\<exists>r s'. evaluateTypeof_callback
              (\<lambda>text s'. evaluate parse rt defs m (insert (i, RecurseTypeof) active)
                           (evaluate_text parse text) s')
              rt (is_typeof_key key) code ((i, RecurseTypeof) \<in> active) s = Inr (r, s')
            \<and> state (snd s') \<noteq> None"
        by (rule evaluateTypeof_callback_returns)
           (use "5.IH"[OF t tt[symmetric] ApplyDefine _ "5.prems"(1)] s in auto)
      from wrapped_returns[OF key this] show ?thesis
        by (simp add: tt ApplyDefine)
    next
      case (ApplyObjectDefine key obj)
      with safe have key: "Object_prototype key = None"
        by simp
      have "\<exists>r s'. object_evaluateTypeof_callback parse s = Inr (r, s')
          \<and> state (snd s') \<noteq> None"
        using s by (simp add: object_evaluateTypeof_callback_def)
      from wrapped_returns[OF key this] show ?thesis
        by (simp add: tt ApplyObjectDefine)
    qed
  qed (rule "5.prems"(2))
qed

lemmas eval_simps = call_evaluateIdentifier.simps call_evaluateTypeof.simps call_typeof_def
  identifier_taps_def typeof_taps_def is_typeof_key_def strip_typeof_def wrapped_def
  evaluateIdentifier_callback_def evaluateTypeof_callback_def typeof_callback_def
  object_evaluateIdentifier_callback_def object_evaluateTypeof_callback_def
  object_typeof_callback_def
  hookCallback_def get_property_def set_property_def Object_prototype_def
  initial_globals_def Let_def example_parse_def hook_or_unknown_def
  example_module_def example_parser_def is_space_def

text \<open>
  C7.  While the identifier-evaluation (the typeof-evaluation) callback of an
  \<open>applyDefine\<close> call is running, its guard is set, and a re-entrant call of it returns no
  result and leaves the variables and the parser as they are; so does the hook for a name
  when every tap for that name is such a callback that is running.  Hence the evaluation
  ends: \<open>evaluate\<close> is total, and with a parser that holds a module, and no key that names
  a property of \<^verbatim>\<open>Object.prototype\<close>, both hooks return without an exception, whatever the
  definitions refer to and whatever the parser's evaluation does.  The two guards are
  independent: a first tap whose own guard is not set returns a result when it returns,
  whether or not the other guard of the same call is set.  A behaviour that produces no
  result records nothing: the wrapper returns no result and leaves the variables as it
  found them, flags, texts and module lists alike; when it is the typeof-substitution that
  produces none, the variables are as the evaluation of its text left them.
\<close>

theorem recursion_guards:
  "wrapped key m (evaluateIdentifier_callback ev rt code True st) = Inr (None, st)
 \<and> wrapped key m (evaluateTypeof_callback ev rt isTypeof code True st) = Inr (None, st)
 \<and> ((\<forall>(i, reg) \<in> set (identifier_taps defs name).
        case reg of ApplyDefine k c \<Rightarrow> (i, Recurse) \<in> active | ApplyObjectDefine k obj \<Rightarrow> False) \<longrightarrow>
       call_evaluateIdentifier parse rt defs m active name st = Inr (None, st))
 \<and> ((\<forall>(i, reg) \<in> set (typeof_taps defs name).
        case reg of ApplyDefine k c \<Rightarrow> (i, RecurseTypeof) \<in> active | ApplyObjectDefine k obj \<Rightarrow> False) \<longrightarrow>
       call_evaluateTypeof parse rt defs m active name st = Inr (None, st))
 \<and> (state (snd st) \<noteq> None \<and> (\<forall>reg \<in> set defs. Object_prototype (hook_key reg) = None) \<longrightarrow>
       (\<exists>r st'. call_evaluateIdentifier parse rt defs m activeR nameR st = Inr (r, st'))
     \<and> (\<exists>r st'. call_evaluateTypeof parse rt defs m activeR nameR st = Inr (r, st')))
 \<and> (identifier_taps defs nameI = (iI, ApplyDefine keyI codeI) # restI \<and> (iI, Recurse) \<notin> activeI
      \<and> call_evaluateIdentifier parse rt defs m (insert (iI, RecurseTypeof) activeI) nameI st
            = Inr (rI, stI)
      \<longrightarrow> rI \<noteq> None)
 \<and> (typeof_taps defs nameT = (iT, ApplyDefine keyT codeT) # restT \<and> (iT, RecurseTypeof) \<notin> activeT
      \<and> call_evaluateTypeof parse rt defs m (insert (iT, Recurse) activeT) nameT st
            = Inr (rT, stT)
      \<longrightarrow> rT \<noteq> None)
 \<and> hookCallback key (None :: (string option \<times> evaluated) option) m g = (Inr None, g)
 \<and> hookCallback key (None :: (string option \<times> bool) option) m g = (Inr None, g)
 \<and> wrapped key m (Inr (None, st) :: error + (string option \<times> evaluated) option \<times> (globals \<times> parser))
       = Inr (None, st)
 \<and> (wrapped key m (typeof_callback ev rt isTypeof code st) = Inr (None, stN) \<longrightarrow>
       (\<exists>strCode parser' res.
           toCode code (snd st) rt AsiNull = Inr (strCode, parser')
         \<and> ev (if isTypeof then strCode else ''typeof ('' @ strCode @ '')'') (fst st, parser')
             = Inr (res, stN)
         \<and> \<not> isString res))"
proof -
  have 1: "wrapped key m (evaluateIdentifier_callback ev rt code True st) = Inr (None, st)"
    for key ev code st
    by (simp add: evaluateIdentifier_callback_def wrapped_no_result)
  have 2: "wrapped key m (evaluateTypeof_callback ev rt isTypeof code True st) = Inr (None, st)"
    for key ev isTypeof code st
    by (simp add: evaluateTypeof_callback_def wrapped_no_result)
  have 3: "call_evaluateIdentifier parse rt defs m active name st = Inr (None, st)"
    if "\<forall>(i, reg) \<in> set (identifier_taps defs name).
          case reg of ApplyDefine k c \<Rightarrow> (i, Recurse) \<in> active | ApplyObjectDefine k obj \<Rightarrow> False"
    unfolding call_evaluateIdentifier.simps
    by (rule bail_no_result) (use that 1 in \<open>auto split: registration.splits\<close>)
  have 4: "call_evaluateTypeof parse rt defs m active name st = Inr (None, st)"
    if "\<forall>(i, reg) \<in> set (typeof_taps defs name).
          case reg of ApplyDefine k c \<Rightarrow> (i, RecurseTypeof) \<in> active | ApplyObjectDefine k obj \<Rightarrow> False"
    unfolding call_evaluateTypeof.simps
    by (rule bail_no_result) (use that 2 in \<open>auto split: registration.splits\<close>)
  have 5: "rI \<noteq> None"
    if "identifier_taps defs nameI = (iI, ApplyDefine keyI codeI) # restI" "(iI, Recurse) \<notin> activeI"
       "call_evaluateIdentifier parse rt defs m (insert (iI, RecurseTypeof) activeI) nameI st
          = Inr (rI, stI)"
    using that by (intro call_evaluateIdentifier_first[OF that(1) _ that(3)]) simp
  have 6: "rT \<noteq> None"
    if "typeof_taps defs nameT = (iT, ApplyDefine keyT codeT) # restT" "(iT, RecurseTypeof) \<notin> activeT"
       "call_evaluateTypeof parse rt defs m (insert (iT, Recurse) activeT) nameT st
          = Inr (rT, stT)"
    using that by (intro call_evaluateTypeof_first[OF that(1) _ that(3)]) simp
  have 7: "(\<exists>r st'. call_evaluateIdentifier parse rt defs m activeR nameR st = Inr (r, st'))
     \<and> (\<exists>r st'. call_evaluateTypeof parse rt defs m activeR nameR st = Inr (r, st'))"
    if "state (snd st) \<noteq> None" "\<forall>reg \<in> set defs. Object_prototype (hook_key reg) = None"
    using evaluate_returns(2,3)[OF that(2,1)] by blast
  have 8: "\<exists>strCode parser' res.
           toCode code (snd st) rt AsiNull = Inr (strCode, parser')
         \<and> ev (if isTypeof then strCode else ''typeof ('' @ strCode @ '')'') (fst st, parser')
             = Inr (res, stN)
         \<and> \<not> isString res"
    if "wrapped key m (typeof_callback ev rt isTypeof code st) = Inr (None, stN)"
    using that
    by (auto simp: typeof_callback_def wrapped_def hookCallback_def Let_def
             split: sum.splits prod.splits if_splits property.splits)
  have 9: "hookCallback key None m g = (Inr None, g)" for key and g
    by (simp add: hookCallback_def)
  show ?thesis
    by (intro conjI impI 1 2 3 4 9 wrapped_no_result) (use 5 6 7 8 in blast)+
qed

theorem recursion_guards_witness:
  "(let defs = [ApplyDefine ''a'' (String ''b''), ApplyDefine ''b'' (String ''a'')];
        rt = \<lparr>supportsBigIntLiteral = True\<rparr>;
        st = (initial_globals, example_parser);
        recorded = (\<lambda>g. values (state_g g) ''a'' = Some ''b'' \<and> values (state_g g) ''b'' = Some ''a''
            \<and> modulesUsingKey (state_g g) ''a'' = Some [''/src/m.js'']
            \<and> modulesUsingKey (state_g g) ''b'' = Some [''/src/m.js''])
    in walkDefinitions (PlainObject [(''a'', String ''b''), (''b'', String ''a'')]) [] = defs
     \<and> call_evaluateIdentifier example_parse rt defs example_module {(0, Recurse)} ''a'' st
         = Inr (None, st)
     \<and> call_evaluateTypeof example_parse rt defs example_module {(0, RecurseTypeof)} ''a'' st
         = Inr (None, st)
     \<and> (case call_evaluateIdentifier example_parse rt defs example_module {(0, RecurseTypeof)} ''a'' st of
          Inl e \<Rightarrow> False | Inr (r, (g, p)) \<Rightarrow> r = Some OtherResult \<and> recorded g)
     \<and> (case call_evaluateTypeof example_parse rt defs example_module {(0, Recurse)} ''a'' st of
          Inl e \<Rightarrow> False | Inr (r, (g, p)) \<Rightarrow> r = Some OtherResult \<and> recorded g)
     \<and> (case call_evaluateIdentifier example_parse rt defs example_module {} ''a'' st of
          Inl e \<Rightarrow> False | Inr (r, (g, p)) \<Rightarrow> r = Some OtherResult \<and> recorded g)
     \<and> (case call_evaluateIdentifier example_parse rt defs example_module {} ''b'' st of
          Inl e \<Rightarrow> False | Inr (r, (g, p)) \<Rightarrow> r = Some OtherResult \<and> recorded g)
     \<and> state (snd st) \<noteq> None
     \<and> wrapped ''a'' example_module
          (typeof_callback (\<lambda>text s. Inr (OtherResult, s)) rt False (String ''b'') st) = Inr (None, st))"
  using recursion_guards [where defs = "[ApplyDefine ''a'' (String ''b''), ApplyDefine ''b'' (String ''a'')]"
      and rt = "\<lparr>supportsBigIntLiteral = True\<rparr>" and st = "(initial_globals, example_parser)"
      and parse = example_parse and m = example_module and name = "''a''"
      and active = "{(0, Recurse), (0, RecurseTypeof)}"
      and nameI = "''a''" and iI = 0 and keyI = "''a''" and codeI = "String ''b''" and restI = "[]"
      and activeI = "{}"
      and nameT = "''a''" and iT = 0 and keyT = "''a''" and codeT = "String ''b''" and restT = "[]"
      and activeT = "{}" and activeR = "{}" and nameR = "''a''"
      and key = "''a''" and ev = "\<lambda>text s. Inr (OtherResult, s)" and isTypeof = False
      and code = "String ''b''" and stN = "(initial_globals, example_parser)"
      and g = initial_globals]
  by (simp add: eval_simps walkDefinitions.simps)

text \<open>
  C2.  An unchanged definition tree with no Runtime Value can still invalidate: with
  \<open>{"typeof a": "\"string\"", a: 1}\<close> and a module that contains \<open>typeof a\<close>, the first
  build records the text of the \<open>typeof a\<close> definition under the key \<open>a\<close> (the key with
  \<open>typeof\<close> stripped), and at the start of the next build \<open>run\<close> compares it with the text
  of the definition \<open>a\<close>, finds them different, and invalidates the module.
\<close>

theorem unchanged_rebuild_invalidates:
  "(let definitions = PlainObject [(''typeof a'', String ([CHR 0x22] @ ''string'' @ [CHR 0x22])),
                                   (''a'', Number ''1'')];
        rt = \<lparr>supportsBigIntLiteral = True\<rparr>
    in case call_typeof example_parse rt (walkDefinitions definitions []) example_module ''a''
              (initial_globals, example_parser) of
         Inl e \<Rightarrow> False
       | Inr (result, (g, p)) \<Rightarrow>
           result = Some True
         \<and> values (state_g g) ''a'' = Some ([CHR 0x22] @ ''string'' @ [CHR 0x22])
         \<and> modulesUsingKey (state_g g) ''a'' = Some [''/src/m.js'']
         \<and> run (state_g g) JavascriptParser_new rt definitions None {} = Inr {''/src/m.js''})"
  by (simp add: eval_simps walkDefinitions.simps prefixed_def)

end
